theory Spec2Isabelle
  imports Main "HOL-Library.Word"
begin

section \<open>JavaScript strings and payload values\<close>

text \<open>
  A JavaScript string is a sequence of UTF-16 code units, and \<open>length\<close> counts code
  units. String literals of \<open>server.js\<close> are ASCII and are written through \<open>ascii\<close>.
\<close>

type_synonym code_unit = "16 word"
type_synonym jstring = "code_unit list"

definition ascii :: "string \<Rightarrow> jstring" where
  "ascii s = map of_char s"

text \<open>
  \<open>String.prototype.trim\<close> strips WhiteSpace and LineTerminator code points from both
  ends: TAB, LF, VT, FF, CR, SP, NBSP, U+1680, U+2000..U+200A, U+2028, U+2029, U+202F,
  U+205F, U+3000 and U+FEFF. All of them are single code units.
\<close>

definition is_ws :: "code_unit \<Rightarrow> bool" where
  "is_ws c = (c \<in> {0x9, 0xA, 0xB, 0xC, 0xD, 0x20, 0xA0, 0x1680, 0x2028, 0x2029,
                     0x202F, 0x205F, 0x3000, 0xFEFF}
              \<or> (0x2000 \<le> c \<and> c \<le> 0x200A))"

definition trim :: "jstring \<Rightarrow> jstring" where
  "trim s = rev (dropWhile is_ws (rev (dropWhile is_ws s)))"

text \<open>
  What a client puts into a handshake or an event payload is any JSON value. The code
  observes three things of such a value: whether it is a string (then \<open>trim\<close> and
  \<open>length\<close> exist), whether it is truthy, and what \<open>String(v)\<close> makes of it.
  \<open>JOther t r\<close> stands for every value that is neither \<open>undefined\<close> nor a string
  (null, booleans, numbers, arrays, objects): \<open>t\<close> is its truthiness and \<open>r\<close> the
  result of \<open>String(v)\<close>, \<open>None\<close> when that conversion throws.
\<close>

datatype jsval = JUndefined | JStr jstring | JOther bool "jstring option"

fun truthy :: "jsval \<Rightarrow> bool" where
  "truthy JUndefined = False"
| "truthy (JStr s) = (s \<noteq> [])"
| "truthy (JOther t r) = t"

fun to_String :: "jsval \<Rightarrow> jstring option" where
  "to_String JUndefined = Some (ascii ''undefined'')"
| "to_String (JStr s) = Some s"
| "to_String (JOther t r) = r"

text \<open>Decimal rendering of a number inside a template literal (\<open>Date.now()\<close> is a
  non-negative integer).\<close>

fun dec :: "nat \<Rightarrow> jstring" where
  "dec n = (if n < 10 then [of_nat (48 + n)]
            else dec (n div 10) @ [of_nat (48 + n mod 10)])"

declare dec.simps [simp del]

text \<open>\<open>array.slice(-n)\<close>: the last \<open>n\<close> elements, the whole array when it is shorter.\<close>

definition slice_last :: "nat \<Rightarrow> 'a list \<Rightarrow> 'a list" where
  "slice_last n xs = drop (length xs - n) xs"

text \<open>A JavaScript \<open>Set\<close> iterates in insertion order: a list without repetition.\<close>

definition set_add :: "'a list \<Rightarrow> 'a \<Rightarrow> 'a list" where
  "set_add xs x = (if x \<in> set xs then xs else xs @ [x])"

definition set_delete :: "'a list \<Rightarrow> 'a \<Rightarrow> 'a list" where
  "set_delete xs x = removeAll x xs"


section \<open>Admission middleware (\<open>io.use\<close>, lines 49--64)\<close>

datatype error = InvalidUsername | UsernameTooLong | TypeError

text \<open>
  \<open>InvalidUsername\<close> is \<open>next(new Error('Invalid username'))\<close>, \<open>UsernameTooLong\<close> is
  \<open>next(new Error('Username too long'))\<close>, and \<open>TypeError\<close> is the exception thrown by
  \<open>.trim()\<close> on a truthy value that is not a string. On success the pair is
  \<open>(socket.username, socket.room)\<close>.
\<close>

definition admit :: "jsval \<Rightarrow> jsval \<Rightarrow> error + (jstring \<times> jstring)" where
  "admit username0 room0 =
     (let r = (if truthy room0 then room0 else JStr (ascii ''general'')) in
      if \<not> truthy username0 then Inl InvalidUsername
      else (case username0 of
              JStr u \<Rightarrow>
                if length (trim u) = 0 then Inl InvalidUsername
                else if length u > 50 then Inl UsernameTooLong
                else (case r of
                        JStr rs \<Rightarrow> Inr (trim u, trim rs)
                      | _ \<Rightarrow> Inl TypeError)
            | _ \<Rightarrow> Inl TypeError))"


section \<open>Server state and emitted events\<close>

record socket =
  sid :: jstring
  sock_username :: jstring
  sock_room :: jstring

record user =
  u_username :: jstring
  u_room :: jstring
  joinedAt :: nat

record message =
  msg_id :: jstring
  msg_username :: jstring
  msg_message :: jstring
  msg_timestamp :: nat
  msg_room :: jstring

text \<open>
  \<open>users\<close>, \<open>rooms\<close> and \<open>messageHistory\<close> are the three maps of lines 44--46.
  \<open>joined\<close> is socket.io's own room membership, written by \<open>socket.join\<close> and read by
  \<open>io.to(room)\<close> and \<open>socket.to(room)\<close>; it includes the room that socket.io gives
  every socket under its own id. \<open>sockets\<close> holds the connected sockets, whose handlers
  are registered.
\<close>

record state =
  users :: "jstring \<rightharpoonup> user"
  rooms :: "jstring \<rightharpoonup> jstring list"
  messageHistory :: "jstring \<rightharpoonup> message list"
  joined :: "jstring \<Rightarrow> jstring set"
  sockets :: "jstring \<rightharpoonup> socket"

definition init_state :: state where
  "init_state = \<lparr>users = Map.empty, rooms = Map.empty, messageHistory = Map.empty,
                  joined = (\<lambda>r. {}), sockets = Map.empty\<rparr>"

text \<open>\<open>socket.emit\<close>, \<open>io.to(room).emit\<close> and \<open>socket.to(room).emit\<close>.\<close>

datatype target = ToSocket jstring | ToRoom jstring | ToRoomExcept jstring jstring

datatype signal =
    MessageHistory "message list"
  | UserJoined jstring nat nat
  | UserList "(jstring \<times> nat) list"
  | NewMessage message
  | ErrorSignal jstring
  | UserTyping jstring
  | UserStopTyping jstring
  | UserLeft jstring nat nat
  | ConnectError error

type_synonym emit = "target \<times> signal"

fun recipients :: "state \<Rightarrow> target \<Rightarrow> jstring set" where
  "recipients s (ToSocket i) = {i}"
| "recipients s (ToRoom r) = joined s r"
| "recipients s (ToRoomExcept r i) = joined s r - {i}"

text \<open>The member set of a room, empty for a room that is not in \<open>rooms\<close>.\<close>

definition members :: "state \<Rightarrow> jstring \<Rightarrow> jstring list" where
  "members s r = (case rooms s r of None \<Rightarrow> [] | Some ms \<Rightarrow> ms)"

text \<open>\<open>rooms.has(room) ? rooms.get(room).size : 0\<close> (line 169).\<close>

definition memberCount :: "state \<Rightarrow> jstring \<Rightarrow> nat" where
  "memberCount s r = (case rooms s r of None \<Rightarrow> 0 | Some ms \<Rightarrow> length ms)"

text \<open>\<open>(messageHistory.get(room) || []).slice(-50)\<close> (lines 87--88).\<close>

definition recent :: "state \<Rightarrow> jstring \<Rightarrow> message list" where
  "recent s r = slice_last 50 (case messageHistory s r of None \<Rightarrow> [] | Some h \<Rightarrow> h)"


section \<open>Handlers\<close>

text \<open>\<open>broadcastUserList\<close> (lines 180--194): the \<open>forEach\<close> loop pushes one entry for
  every member that has a record in \<open>users\<close>.\<close>

definition push_user :: "state \<Rightarrow> jstring \<Rightarrow> (jstring \<times> nat) list \<Rightarrow> (jstring \<times> nat) list" where
  "push_user s socketId userList =
     (case users s socketId of
        None \<Rightarrow> userList
      | Some u \<Rightarrow> userList @ [(u_username u, joinedAt u)])"

definition broadcastUserList :: "jstring \<Rightarrow> state \<Rightarrow> state \<times> emit list" where
  "broadcastUserList r s =
     (let userList = (case rooms s r of
                        None \<Rightarrow> []
                      | Some ms \<Rightarrow> fold (push_user s) ms [])
      in (s, [(ToRoom r, UserList userList)]))"

text \<open>
  The \<open>connection\<close> handler up to the registration of the event handlers (lines 66--98).
  \<open>t1\<close> and \<open>t2\<close> are its two readings of \<open>Date.now()\<close>.
\<close>

definition on_connection :: "socket \<Rightarrow> nat \<Rightarrow> nat \<Rightarrow> state \<Rightarrow> state \<times> emit list" where
  "on_connection sk t1 t2 s =
     (let r = sock_room sk;
          s1 = s\<lparr>users := (users s)(sid sk \<mapsto>
                   \<lparr>u_username = sock_username sk, u_room = r, joinedAt = t1\<rparr>)\<rparr>;
          s2 = s1\<lparr>joined := (joined s1)(r := insert (sid sk) (joined s1 r))\<rparr>;
          s3 = (if rooms s2 r = None
                then s2\<lparr>rooms := (rooms s2)(r \<mapsto> []),
                        messageHistory := (messageHistory s2)(r \<mapsto> [])\<rparr>
                else s2);
          s4 = (case rooms s3 r of
                  None \<Rightarrow> s3
                | Some ms \<Rightarrow> s3\<lparr>rooms := (rooms s3)(r \<mapsto> set_add ms (sid sk))\<rparr>);
          e1 = (ToSocket (sid sk), MessageHistory (recent s4 r));
          e2 = (ToRoomExcept r (sid sk),
                UserJoined (sock_username sk) t2 (memberCount s4 r));
          (s5, e3) = broadcastUserList r s4
      in (s5, [e1, e2] @ e3))"

text \<open>
  The payload of \<open>send_message\<close>: \<open>NoData\<close> when \<open>data\<close> is \<open>undefined\<close> or \<open>null\<close>, so
  that reading \<open>data.message\<close> throws; otherwise \<open>Data v\<close> with \<open>v\<close> the value of
  \<open>data.message\<close>.
\<close>

datatype payload = NoData | Data jsval

text \<open>The message object of lines 111--117.\<close>

definition messageData :: "socket \<Rightarrow> jstring \<Rightarrow> nat \<Rightarrow> nat \<Rightarrow> message" where
  "messageData sk message t1 t2 =
     \<lparr>msg_id = sid sk @ ascii ''-'' @ dec t1,
      msg_username = sock_username sk,
      msg_message = message,
      msg_timestamp = t2,
      msg_room = sock_room sk\<rparr>"

text \<open>\<open>history.push(messageData); if (history.length > 100) history.shift()\<close>.\<close>

definition history_push :: "message list \<Rightarrow> message \<Rightarrow> message list" where
  "history_push history m =
     (let h1 = history @ [m] in if length h1 > 100 then tl h1 else h1)"

text \<open>
  The \<open>send_message\<close> handler (lines 101--133). Every exception inside the \<open>try\<close> block
  ends in the \<open>catch\<close> block, which emits \<open>error\<close> to the sender. \<open>t1\<close> and \<open>t2\<close> are
  the two readings of \<open>Date.now()\<close>.
\<close>

definition on_send_message ::
    "socket \<Rightarrow> payload \<Rightarrow> nat \<Rightarrow> nat \<Rightarrow> state \<Rightarrow> state \<times> emit list" where
  "on_send_message sk data t1 t2 s =
     (let caught = (s, [(ToSocket (sid sk), ErrorSignal (ascii ''Failed to send message''))])
      in case data of
           NoData \<Rightarrow> caught
         | Data m \<Rightarrow>
            (case to_String (if truthy m then m else JStr []) of
               None \<Rightarrow> caught
             | Some str \<Rightarrow>
                (let message = trim str in
                 if message = [] \<or> length message = 0 then (s, [])
                 else if length message > 1000
                 then (s, [(ToSocket (sid sk), ErrorSignal (ascii ''Message too long''))])
                 else
                   (case messageHistory s (sock_room sk) of
                      None \<Rightarrow> caught
                    | Some history \<Rightarrow>
                       (s\<lparr>messageHistory := (messageHistory s)
                             (sock_room sk \<mapsto> history_push history (messageData sk message t1 t2))\<rparr>,
                        [(ToRoom (sock_room sk), NewMessage (messageData sk message t1 t2))])))))"

definition on_typing :: "socket \<Rightarrow> state \<Rightarrow> state \<times> emit list" where
  "on_typing sk s = (s, [(ToRoomExcept (sock_room sk) (sid sk), UserTyping (sock_username sk))])"

definition on_stop_typing :: "socket \<Rightarrow> state \<Rightarrow> state \<times> emit list" where
  "on_stop_typing sk s =
     (s, [(ToRoomExcept (sock_room sk) (sid sk), UserStopTyping (sock_username sk))])"

text \<open>The \<open>disconnect\<close> handler (lines 149--176); \<open>t\<close> is its reading of \<open>Date.now()\<close>.\<close>

definition on_disconnect :: "socket \<Rightarrow> nat \<Rightarrow> state \<Rightarrow> state \<times> emit list" where
  "on_disconnect sk t s =
     (let (s3, out) =
            (case users s (sid sk) of
               None \<Rightarrow> (s, [])
             | Some usr \<Rightarrow>
                (let r = u_room usr;
                     s1 = (case rooms s r of
                             None \<Rightarrow> s
                           | Some ms \<Rightarrow>
                              (let ms' = set_delete ms (sid sk) in
                               if length ms' = 0
                               then s\<lparr>rooms := (rooms s)(r := None),
                                      messageHistory := (messageHistory s)(r := None)\<rparr>
                               else s\<lparr>rooms := (rooms s)(r \<mapsto> ms')\<rparr>));
                     e1 = (ToRoomExcept r (sid sk),
                           UserLeft (u_username usr) t (memberCount s1 r));
                     (s2, e2) = broadcastUserList r s1
                 in (s2, e1 # e2)))
      in (s3\<lparr>users := (users s3)(sid sk := None)\<rparr>, out))"


section \<open>Event dispatch\<close>

text \<open>
  One event of the transport: a connection attempt with the handshake's \<open>username\<close> and
  \<open>room\<close>, or an event of a connected socket. Events carry the clock readings their
  handler takes.
\<close>

datatype event =
    Connect jstring jsval jsval nat nat
  | SendMessage jstring payload nat nat
  | Typing jstring
  | StopTyping jstring
  | Disconnect jstring nat

text \<open>
  What socket.io does by itself around the handlers. Before the \<open>connection\<close> handler
  runs, the admitted socket is recorded and joins the room named by its own id. Before
  the \<open>disconnect\<close> handler runs, the socket has left all its rooms and is no longer
  recorded.
\<close>

definition sio_connect :: "socket \<Rightarrow> state \<Rightarrow> state" where
  "sio_connect sk s =
     s\<lparr>sockets := (sockets s)(sid sk \<mapsto> sk),
       joined := (joined s)(sid sk := insert (sid sk) (joined s (sid sk)))\<rparr>"

definition sio_close :: "jstring \<Rightarrow> state \<Rightarrow> state" where
  "sio_close i s =
     s\<lparr>sockets := (sockets s)(i := None), joined := (\<lambda>r. joined s r - {i})\<rparr>"

text \<open>
  \<open>step\<close> has no successor state (\<open>None\<close>) where the transport cannot deliver the event
  (a connection under an id in use, an event of a socket that is not connected) and where
  the middleware throws. A rejected handshake changes nothing and answers the client with
  the error.
\<close>

fun step :: "state \<Rightarrow> event \<Rightarrow> (state \<times> emit list) option" where
  "step s (Connect i u r t1 t2) =
     (case sockets s i of
        Some sk \<Rightarrow> None
      | None \<Rightarrow>
         (case admit u r of
            Inl e \<Rightarrow> (if e = TypeError then None else Some (s, [(ToSocket i, ConnectError e)]))
          | Inr (un, rm) \<Rightarrow>
             (let sk = \<lparr>sid = i, sock_username = un, sock_room = rm\<rparr>
              in Some (on_connection sk t1 t2 (sio_connect sk s)))))"
| "step s (SendMessage i d t1 t2) =
     (case sockets s i of
        None \<Rightarrow> None
      | Some sk \<Rightarrow> Some (on_send_message sk d t1 t2 s))"
| "step s (Typing i) =
     (case sockets s i of None \<Rightarrow> None | Some sk \<Rightarrow> Some (on_typing sk s))"
| "step s (StopTyping i) =
     (case sockets s i of None \<Rightarrow> None | Some sk \<Rightarrow> Some (on_stop_typing sk s))"
| "step s (Disconnect i t) =
     (case sockets s i of
        None \<Rightarrow> None
      | Some sk \<Rightarrow>
         Some (on_disconnect sk t
                 (sio_close i s)))"

inductive reachable :: "state \<Rightarrow> bool" where
  reachable_init: "reachable init_state"
| reachable_step: "reachable s \<Longrightarrow> step s e = Some (s', out) \<Longrightarrow> reachable s'"


section \<open>Runs and sequences of sends\<close>

text \<open>A run of events, with everything that was emitted on the way.\<close>

fun run :: "state \<Rightarrow> event list \<Rightarrow> (state \<times> emit list) option" where
  "run s [] = Some (s, [])"
| "run s (e # es) =
     (case step s e of
        None \<Rightarrow> None
      | Some (s1, out1) \<Rightarrow>
         (case run s1 es of
            None \<Rightarrow> None
          | Some (s2, out2) \<Rightarrow> Some (s2, out1 @ out2)))"

text \<open>A sequence of \<open>send_message\<close> events with string bodies, each given by the sending
  socket, the body and the two clock readings, and the message each of them builds.\<close>

fun sends :: "state \<Rightarrow> (socket \<times> jstring \<times> nat \<times> nat) list \<Rightarrow> state" where
  "sends s [] = s"
| "sends s ((sk, b, t1, t2) # xs) = sends (fst (on_send_message sk (Data (JStr b)) t1 t2 s)) xs"

fun sent :: "socket \<times> jstring \<times> nat \<times> nat \<Rightarrow> message" where
  "sent (sk, b, t1, t2) = messageData sk (trim b) t1 t2"

text \<open>A send to room \<open>r\<close> that passes the checks of lines 105--109.\<close>

fun valid_send :: "jstring \<Rightarrow> socket \<times> jstring \<times> nat \<times> nat \<Rightarrow> bool" where
  "valid_send r (sk, b, t1, t2) \<longleftrightarrow> sock_room sk = r \<and> trim b \<noteq> [] \<and> length (trim b) \<le> 1000"

text \<open>An admitted connection to room \<open>r\<close>.\<close>

fun joins :: "jstring \<Rightarrow> event \<Rightarrow> bool" where
  "joins r (Connect i u r0 t1 t2) = (case admit u r0 of Inl e \<Rightarrow> False | Inr (un, rm) \<Rightarrow> rm = r)"
| "joins r e = False"

text \<open>The entry of \<open>user_list\<close> for a member.\<close>

definition entry_of :: "state \<Rightarrow> jstring \<Rightarrow> jstring \<times> nat \<Rightarrow> bool" where
  "entry_of s i e \<longleftrightarrow> (\<exists>u. users s i = Some u \<and> e = (u_username u, joinedAt u))"


section \<open>Example connections\<close>

definition alice :: socket where
  "alice = \<lparr>sid = ascii ''a1'', sock_username = ascii ''Alice'', sock_room = ascii ''general''\<rparr>"

definition bob :: socket where
  "bob = \<lparr>sid = ascii ''b2'', sock_username = ascii ''Bob'', sock_room = ascii ''general''\<rparr>"

definition alice_connects :: event where
  "alice_connects = Connect (ascii ''a1'') (JStr (ascii ''Alice'')) JUndefined 1 2"

definition bob_connects :: event where
  "bob_connects = Connect (ascii ''b2'') (JStr (ascii '' Bob '')) (JStr (ascii ''general'')) 3 4"

definition one_member :: state where
  "one_member = fst (on_connection alice 1 2 (sio_connect alice init_state))"

definition chatted :: state where
  "chatted = fst (on_send_message alice (Data (JStr (ascii ''hi''))) 5 6 one_member)"

definition two_members :: state where
  "two_members = fst (on_connection bob 3 4 (sio_connect bob one_member))"


section \<open>Consistency of the server state\<close>

text \<open>A room is registered with its history, and never with an empty member set.\<close>

definition history_matches :: "state \<Rightarrow> bool" where
  "history_matches s \<longleftrightarrow> dom (messageHistory s) = dom (rooms s)"

definition rooms_nonempty :: "state \<Rightarrow> bool" where
  "rooms_nonempty s \<longleftrightarrow> (\<forall>r ms. rooms s r = Some ms \<longrightarrow> ms \<noteq> [])"

text \<open>The member sets hold each connection once, namely those whose presence record
  names the room. A socket.io room holds the members of the room of that name and, when
  the name is the id of a connected socket, that socket.\<close>

definition rooms_distinct :: "state \<Rightarrow> bool" where
  "rooms_distinct s \<longleftrightarrow> (\<forall>r ms. rooms s r = Some ms \<longrightarrow> distinct ms)"

definition members_match :: "state \<Rightarrow> bool" where
  "members_match s \<longleftrightarrow>
     (\<forall>r i. i \<in> set (members s r) \<longleftrightarrow> (\<exists>u. users s i = Some u \<and> u_room u = r))"

definition joined_match :: "state \<Rightarrow> bool" where
  "joined_match s \<longleftrightarrow>
     (\<forall>r. joined s r = set (members s r) \<union> {i. i = r \<and> sockets s i \<noteq> None})"

text \<open>Exactly the connected sockets have a presence record, which carries the socket's
  username and room.\<close>

definition presence_match :: "state \<Rightarrow> bool" where
  "presence_match s \<longleftrightarrow>
     (\<forall>i. sockets s i = None \<longrightarrow> users s i = None)
     \<and> (\<forall>i sk. sockets s i = Some sk \<longrightarrow>
           sid sk = i \<and> (\<exists>u. users s i = Some u \<and> u_username u = sock_username sk
                                \<and> u_room u = sock_room sk))"

definition history_bounded :: "state \<Rightarrow> bool" where
  "history_bounded s \<longleftrightarrow> (\<forall>r h. messageHistory s r = Some h \<longrightarrow> length h \<le> 100)"

definition consistent :: "state \<Rightarrow> bool" where
  "consistent s \<longleftrightarrow>
     history_matches s \<and> rooms_nonempty s \<and> rooms_distinct s \<and> members_match s
     \<and> joined_match s \<and> presence_match s \<and> history_bounded s"


section \<open>Strings and admission\<close>


lemma last_dropWhile_keep: "dropWhile P xs \<noteq> [] \<Longrightarrow> last (dropWhile P xs) = last xs"
  by (induction xs) (auto split: if_splits)

lemma trim_hd_last:
  assumes "trim s \<noteq> []"
  shows "\<not> is_ws (hd (trim s))" and "\<not> is_ws (last (trim s))"
proof -
  define a where "a = dropWhile is_ws s"
  define b where "b = dropWhile is_ws (rev a)"
  have t: "trim s = rev b" by (simp add: trim_def a_def b_def)
  with assms have b: "b \<noteq> []" by simp
  then have a: "a \<noteq> []" by (auto simp: b_def)
  have "\<not> is_ws (hd b)" using b unfolding b_def by (rule hd_dropWhile)
  then show "\<not> is_ws (last (trim s))" using b by (simp add: t last_rev)
  have "last b = last (rev a)" using b unfolding b_def by (rule last_dropWhile_keep)
  also have "\<dots> = hd a" using a by (simp add: last_rev)
  finally have "hd (trim s) = hd a" using b by (simp add: t hd_rev)
  moreover have "\<not> is_ws (hd a)" using a unfolding a_def by (rule hd_dropWhile)
  ultimately show "\<not> is_ws (hd (trim s))" by simp
qed

lemma trim_Nil [simp]: "trim [] = []" by (simp add: trim_def)

lemma trim_snoc_ws: "is_ws c \<Longrightarrow> trim (s @ [c]) = trim s"
proof -
  assume c: "is_ws c"
  show ?thesis
  proof (cases "dropWhile is_ws s = []")
    case True
    then have "\<forall>x\<in>set s. is_ws x" by simp
    with c have A: "dropWhile is_ws (s @ [c]) = []" by simp
    show ?thesis by (simp only: trim_def A True rev.simps dropWhile.simps)
  next
    case False
    then have "\<exists>x\<in>set s. \<not> is_ws x" by simp
    then obtain x where "x \<in> set s" "\<not> is_ws x" by blast
    then have "dropWhile is_ws (s @ [c]) = dropWhile is_ws s @ [c]"
      by (rule dropWhile_append1)
    with c show ?thesis by (simp add: trim_def)
  qed
qed

lemma trim_clean: "s \<noteq> [] \<Longrightarrow> \<not> is_ws (hd s) \<Longrightarrow> \<not> is_ws (last s) \<Longrightarrow> trim s = s"
proof -
  assume s: "s \<noteq> []" and h: "\<not> is_ws (hd s)" and l: "\<not> is_ws (last s)"
  from s h have 1: "dropWhile is_ws s = s" by (cases s) auto
  from s l have "dropWhile is_ws (rev s) = rev s" by (cases "rev s") (auto simp: last_rev hd_rev)
  with 1 show ?thesis by (simp add: trim_def)
qed

lemma trim_all_ws: "(\<forall>c\<in>set s. is_ws c) \<Longrightarrow> trim s = []"
proof -
  assume "\<forall>c\<in>set s. is_ws c"
  then have "dropWhile is_ws s = []" by simp
  then show ?thesis by (simp only: trim_def rev.simps dropWhile.simps)
qed

lemma trim_eq_Nil_iff: "trim s = [] \<longleftrightarrow> (\<forall>c\<in>set s. is_ws c)"
proof
  assume "trim s = []"
  then have "dropWhile is_ws (rev (dropWhile is_ws s)) = []" by (simp add: trim_def)
  then have "\<forall>x\<in>set (dropWhile is_ws s). is_ws x" by simp
  then have "dropWhile is_ws s = []"
    by (metis hd_dropWhile hd_in_set)
  then show "\<forall>c\<in>set s. is_ws c" by simp
qed (rule trim_all_ws)

lemma length_trim_le: "length (trim s) \<le> length s"
proof -
  have "length (trim s) \<le> length (dropWhile is_ws s)"
    by (simp add: trim_def) (metis length_dropWhile_le length_rev)
  also have "\<dots> \<le> length s" by (rule length_dropWhile_le)
  finally show ?thesis .
qed

lemma trim_general: "trim (ascii ''general'') = ascii ''general''"
  by (rule trim_clean) (simp_all add: ascii_def is_ws_def)

lemma admit_JStr:
  "admit (JStr u) room0 =
     (if trim u = [] then Inl InvalidUsername
      else if length u > 50 then Inl UsernameTooLong
      else (case (if truthy room0 then room0 else JStr (ascii ''general'')) of
              JStr rs \<Rightarrow> Inr (trim u, trim rs)
            | _ \<Rightarrow> Inl TypeError))"
proof (cases "u = []")
  case True
  then show ?thesis by (simp add: admit_def)
next
  case False
  then show ?thesis by (simp add: admit_def Let_def)
qed

text \<open>
  The length check of line 57 reads the username as it was sent: 49 letters followed by
  two spaces trim to 49 characters and are still refused as too long.
\<close>

theorem admit_padded_counterexample:
  "trim (replicate 49 0x61 @ [0x20, 0x20]) = replicate 49 0x61
   \<and> length (trim (replicate 49 0x61 @ [0x20, 0x20])) = 49
   \<and> admit (JStr (replicate 49 0x61 @ [0x20, 0x20])) (JStr (ascii ''general''))
       = Inl UsernameTooLong"
proof -
  have w: "is_ws 0x20" by (simp add: is_ws_def)
  have "trim (replicate 49 0x61 @ [0x20, 0x20]) = trim ((replicate 49 0x61 @ [0x20]) @ [0x20])"
    by simp
  also have "\<dots> = trim (replicate 49 0x61)" by (simp only: trim_snoc_ws[OF w])
  also have "\<dots> = replicate 49 0x61" by (rule trim_clean) (simp_all add: is_ws_def)
  finally have t: "trim (replicate 49 0x61 @ [0x20, 0x20]) = replicate 49 0x61" .
  then show ?thesis by (simp add: admit_JStr)
qed

text \<open>
  C3 (as the code has it). An absent username is refused as invalid; a string username
  is refused as invalid exactly when it trims to the empty string, and as too long exactly
  when it does not trim to empty and its length before trimming exceeds 50. Every username
  of at most 50 characters that does not trim to empty is admitted, with an absent room or
  with any room string, and the normalized username neither starts nor ends with
  whitespace.
\<close>

theorem admit_checks:
  "admit JUndefined room0 = Inl InvalidUsername
   \<and> (admit (JStr u) room0 = Inl InvalidUsername \<longleftrightarrow> trim u = [])
   \<and> (admit (JStr u) room0 = Inl UsernameTooLong \<longleftrightarrow> trim u \<noteq> [] \<and> length u > 50)
   \<and> (trim u \<noteq> [] \<and> length u \<le> 50 \<longrightarrow>
        admit (JStr u) JUndefined = Inr (trim u, ascii ''general'')
        \<and> admit (JStr u) (JStr r) = Inr (trim u, if r = [] then ascii ''general'' else trim r)
        \<and> \<not> is_ws (hd (trim u)) \<and> \<not> is_ws (last (trim u)))"
proof (intro conjI impI)
  show "admit JUndefined room0 = Inl InvalidUsername" by (simp add: admit_def)
  show "admit (JStr u) room0 = Inl InvalidUsername \<longleftrightarrow> trim u = []"
    by (simp add: admit_JStr split: jsval.splits)
  show "admit (JStr u) room0 = Inl UsernameTooLong \<longleftrightarrow> trim u \<noteq> [] \<and> length u > 50"
    by (simp add: admit_JStr split: jsval.splits)
next
  assume v: "trim u \<noteq> [] \<and> length u \<le> 50"
  then show "admit (JStr u) JUndefined = Inr (trim u, ascii ''general'')"
    by (simp add: admit_JStr trim_general)
  from v show "admit (JStr u) (JStr r) = Inr (trim u, if r = [] then ascii ''general'' else trim r)"
    by (simp add: admit_JStr trim_general)
  from v show "\<not> is_ws (hd (trim u))" by (simp add: trim_hd_last)
  from v show "\<not> is_ws (last (trim u))" by (simp add: trim_hd_last)
qed

theorem admit_checks_witness:
  "trim [0x20, 0x62, 0x6F, 0x62, 0x20] \<noteq> [] \<and> length [0x20, 0x62, 0x6F, 0x62, 0x20 :: code_unit] \<le> 50
   \<and> admit (JStr [0x20, 0x62, 0x6F, 0x62, 0x20]) (JStr [0x20, 0x64, 0x65, 0x76]) = Inr ([0x62, 0x6F, 0x62], [0x64, 0x65, 0x76])
   \<and> admit (JStr [0x20, 0x62, 0x6F, 0x62, 0x20]) JUndefined = Inr ([0x62, 0x6F, 0x62], ascii ''general'')
   \<and> \<not> is_ws (hd (trim [0x20, 0x62, 0x6F, 0x62, 0x20]))"
  using admit_checks [of JUndefined "[0x20, 0x62, 0x6F, 0x62, 0x20]" "[0x20, 0x64, 0x65, 0x76]"]
  by (simp add: trim_def is_ws_def)


section \<open>What each handler does to the state\<close>

lemma memberCount_members: "memberCount s r = length (members s r)"
  by (simp add: memberCount_def members_def split: option.splits)

lemma broadcastUserList_fst [simp]: "fst (broadcastUserList r s) = s"
  by (simp add: broadcastUserList_def Let_def)

lemma broadcastUserList_snd:
  "snd (broadcastUserList r s) = [(ToRoom r, UserList (fold (push_user s) (members s r) []))]"
  by (simp add: broadcastUserList_def Let_def members_def split: option.splits)

lemma on_connection_users:
  "users (fst (on_connection sk t1 t2 s)) =
     (users s)(sid sk \<mapsto> \<lparr>u_username = sock_username sk, u_room = sock_room sk, joinedAt = t1\<rparr>)"
  by (simp add: on_connection_def Let_def split_beta split: option.splits)

lemma on_connection_rooms:
  "rooms (fst (on_connection sk t1 t2 s)) =
     (rooms s)(sock_room sk \<mapsto> set_add (members s (sock_room sk)) (sid sk))"
  by (simp add: on_connection_def Let_def split_beta members_def split: option.splits)

lemma on_connection_history:
  "messageHistory (fst (on_connection sk t1 t2 s)) =
     (if rooms s (sock_room sk) = None then (messageHistory s)(sock_room sk \<mapsto> [])
      else messageHistory s)"
  by (simp add: on_connection_def Let_def split_beta split: option.splits)

lemma on_connection_joined:
  "joined (fst (on_connection sk t1 t2 s)) =
     (joined s)(sock_room sk := insert (sid sk) (joined s (sock_room sk)))"
  by (simp add: on_connection_def Let_def split_beta split: option.splits)

lemma on_connection_sockets:
  "sockets (fst (on_connection sk t1 t2 s)) = sockets s"
  by (simp add: on_connection_def Let_def split_beta split: option.splits)

lemma on_connection_out:
  "snd (on_connection sk t1 t2 s) =
     [(ToSocket (sid sk), MessageHistory (recent (fst (on_connection sk t1 t2 s)) (sock_room sk))),
      (ToRoomExcept (sock_room sk) (sid sk),
       UserJoined (sock_username sk) t2 (memberCount (fst (on_connection sk t1 t2 s)) (sock_room sk))),
      (ToRoom (sock_room sk),
       UserList (fold (push_user (fst (on_connection sk t1 t2 s)))
                   (members (fst (on_connection sk t1 t2 s)) (sock_room sk)) []))]"
  by (simp add: on_connection_def Let_def split_beta broadcastUserList_snd)

subsection \<open>socket.io's own bookkeeping\<close>

lemma sio_connect_fields [simp]:
  "users (sio_connect sk s) = users s"
  "rooms (sio_connect sk s) = rooms s"
  "messageHistory (sio_connect sk s) = messageHistory s"
  "sockets (sio_connect sk s) = (sockets s)(sid sk \<mapsto> sk)"
  "joined (sio_connect sk s) = (joined s)(sid sk := insert (sid sk) (joined s (sid sk)))"
  by (simp_all add: sio_connect_def)

lemma sio_close_fields [simp]:
  "users (sio_close i s) = users s"
  "rooms (sio_close i s) = rooms s"
  "messageHistory (sio_close i s) = messageHistory s"
  "sockets (sio_close i s) = (sockets s)(i := None)"
  "joined (sio_close i s) = (\<lambda>r. joined s r - {i})"
  by (simp_all add: sio_close_def)

subsection \<open>Sending\<close>

lemma on_send_message_users [simp]: "users (fst (on_send_message sk d t1 t2 s)) = users s"
  and on_send_message_rooms [simp]: "rooms (fst (on_send_message sk d t1 t2 s)) = rooms s"
  and on_send_message_joined [simp]: "joined (fst (on_send_message sk d t1 t2 s)) = joined s"
  and on_send_message_sockets [simp]: "sockets (fst (on_send_message sk d t1 t2 s)) = sockets s"
  by (simp_all add: on_send_message_def Let_def split: payload.splits option.splits)

lemma on_send_message_history:
  "messageHistory (fst (on_send_message sk d t1 t2 s)) = messageHistory s
   \<or> (\<exists>h m. messageHistory s (sock_room sk) = Some h
        \<and> messageHistory (fst (on_send_message sk d t1 t2 s))
            = (messageHistory s)(sock_room sk \<mapsto> history_push h m))"
  by (auto simp: on_send_message_def Let_def split: payload.splits option.splits)

lemma length_history_push: "length h \<le> 100 \<Longrightarrow> length (history_push h m) \<le> 100"
  by (simp add: history_push_def Let_def)

subsection \<open>Disconnecting\<close>

lemma on_disconnect_unknown:
  "users s (sid sk) = None \<Longrightarrow> on_disconnect sk t s = (s, [])"
proof -
  assume n: "users s (sid sk) = None"
  then have "(users s)(sid sk := None) = users s" by (simp add: fun_upd_idem)
  with n show ?thesis by (simp add: on_disconnect_def)
qed

lemma on_disconnect_users [simp]:
  "users (fst (on_disconnect sk t s)) = (users s)(sid sk := None)"
  by (simp add: on_disconnect_def Let_def split_beta split: option.splits)

lemma on_disconnect_joined [simp]: "joined (fst (on_disconnect sk t s)) = joined s"
  and on_disconnect_sockets [simp]: "sockets (fst (on_disconnect sk t s)) = sockets s"
  by (simp_all add: on_disconnect_def Let_def split_beta split: option.splits)

lemma on_disconnect_rooms:
  "users s (sid sk) = Some u \<Longrightarrow>
   rooms (fst (on_disconnect sk t s)) =
     (case rooms s (u_room u) of
        None \<Rightarrow> rooms s
      | Some ms \<Rightarrow> if set_delete ms (sid sk) = [] then (rooms s)(u_room u := None)
                   else (rooms s)(u_room u \<mapsto> set_delete ms (sid sk)))"
  by (simp add: on_disconnect_def Let_def split_beta split: option.splits)

lemma on_disconnect_history:
  "users s (sid sk) = Some u \<Longrightarrow>
   messageHistory (fst (on_disconnect sk t s)) =
     (case rooms s (u_room u) of
        None \<Rightarrow> messageHistory s
      | Some ms \<Rightarrow> if set_delete ms (sid sk) = [] then (messageHistory s)(u_room u := None)
                   else messageHistory s)"
  by (simp add: on_disconnect_def Let_def split_beta split: option.splits)

lemma on_disconnect_out:
  "users s (sid sk) = Some u \<Longrightarrow>
   snd (on_disconnect sk t s) =
     [(ToRoomExcept (u_room u) (sid sk),
       UserLeft (u_username u) t (memberCount (fst (on_disconnect sk t s)) (u_room u))),
      (ToRoom (u_room u),
       UserList (fold (push_user s) (members (fst (on_disconnect sk t s)) (u_room u)) []))]"
  by (simp add: on_disconnect_def Let_def split_beta broadcastUserList_snd memberCount_def
        members_def push_user_def[abs_def] split: option.splits)


section \<open>Member sets\<close>

lemma set_set_add [simp]: "set (set_add xs x) = insert x (set xs)"
  by (auto simp: set_add_def)

lemma distinct_set_add: "distinct xs \<Longrightarrow> distinct (set_add xs x)"
  by (simp add: set_add_def)

lemma set_add_not_Nil [simp]: "set_add xs x \<noteq> []"
  by (auto simp: set_add_def)

lemma set_set_delete [simp]: "set (set_delete xs x) = set xs - {x}"
  by (auto simp: set_delete_def)

lemma distinct_set_delete: "distinct xs \<Longrightarrow> distinct (set_delete xs x)"
  by (simp add: set_delete_def distinct_removeAll)

lemma members_on_connection:
  "members (fst (on_connection sk t1 t2 s)) r =
     (if r = sock_room sk then set_add (members s r) (sid sk) else members s r)"
  by (simp add: members_def on_connection_rooms)

lemma members_on_disconnect:
  "members (fst (on_disconnect sk t s)) r =
     (case users s (sid sk) of
        None \<Rightarrow> members s r
      | Some u \<Rightarrow> if r = u_room u then set_delete (members s r) (sid sk) else members s r)"
proof (cases "users s (sid sk)")
  case None
  then show ?thesis by (simp add: on_disconnect_unknown)
next
  case (Some u)
  show ?thesis
    by (simp add: members_def on_disconnect_rooms[OF Some] Some set_delete_def
             split: option.splits)
qed

lemma members_on_send_message [simp]:
  "members (fst (on_send_message sk d t1 t2 s)) r = members s r"
  by (simp add: members_def)

lemma members_sio_connect [simp]: "members (sio_connect sk s) r = members s r"
  and members_sio_close [simp]: "members (sio_close i s) r = members s r"
  by (simp_all add: members_def)

subsection \<open>Registry and history\<close>

lemma history_matches_on_connection:
  "history_matches s \<Longrightarrow> history_matches (fst (on_connection sk t1 t2 s))"
  by (auto simp: history_matches_def on_connection_rooms on_connection_history)

lemma dom_history_on_send_message:
  "dom (messageHistory (fst (on_send_message sk d t1 t2 s))) = dom (messageHistory s)"
  using on_send_message_history [of sk d t1 t2 s]
proof (elim disjE exE conjE)
  fix h m
  assume h: "messageHistory s (sock_room sk) = Some h"
    and e: "messageHistory (fst (on_send_message sk d t1 t2 s))
            = (messageHistory s)(sock_room sk \<mapsto> history_push h m)"
  from h have "sock_room sk \<in> dom (messageHistory s)" by blast
  then show ?thesis by (simp add: e insert_absorb)
qed simp

lemma history_matches_on_send_message:
  "history_matches s \<Longrightarrow> history_matches (fst (on_send_message sk d t1 t2 s))"
  by (simp add: history_matches_def dom_history_on_send_message)

lemma history_matches_on_disconnect:
  "history_matches s \<Longrightarrow> history_matches (fst (on_disconnect sk t s))"
proof (cases "users s (sid sk)")
  case None
  then show "history_matches s \<Longrightarrow> ?thesis" by (simp add: on_disconnect_unknown)
next
  case (Some u)
  show "history_matches s \<Longrightarrow> ?thesis"
    by (auto simp: history_matches_def on_disconnect_rooms[OF Some] on_disconnect_history[OF Some]
             split: option.splits if_splits)
qed

lemma rooms_nonempty_on_connection:
  "rooms_nonempty s \<Longrightarrow> rooms_nonempty (fst (on_connection sk t1 t2 s))"
  by (auto simp: rooms_nonempty_def on_connection_rooms)

lemma rooms_nonempty_on_disconnect:
  "rooms_nonempty s \<Longrightarrow> rooms_nonempty (fst (on_disconnect sk t s))"
proof (cases "users s (sid sk)")
  case None
  then show "rooms_nonempty s \<Longrightarrow> ?thesis" by (simp add: on_disconnect_unknown)
next
  case (Some u)
  show "rooms_nonempty s \<Longrightarrow> ?thesis"
    by (auto simp: rooms_nonempty_def on_disconnect_rooms[OF Some]
             split: option.splits if_splits)
qed

lemma rooms_distinct_on_connection:
  "rooms_distinct s \<Longrightarrow> rooms_distinct (fst (on_connection sk t1 t2 s))"
  by (auto simp: rooms_distinct_def on_connection_rooms members_def distinct_set_add
           split: option.splits)

lemma rooms_distinct_on_disconnect:
  "rooms_distinct s \<Longrightarrow> rooms_distinct (fst (on_disconnect sk t s))"
proof (cases "users s (sid sk)")
  case None
  then show "rooms_distinct s \<Longrightarrow> ?thesis" by (simp add: on_disconnect_unknown)
next
  case (Some u)
  show "rooms_distinct s \<Longrightarrow> ?thesis"
    by (auto simp: rooms_distinct_def on_disconnect_rooms[OF Some] distinct_set_delete
             split: option.splits if_splits)
qed

lemma history_bounded_on_connection:
  "history_bounded s \<Longrightarrow> history_bounded (fst (on_connection sk t1 t2 s))"
  by (auto simp: history_bounded_def on_connection_history split: if_splits)

lemma history_bounded_on_send_message:
  "history_bounded s \<Longrightarrow> history_bounded (fst (on_send_message sk d t1 t2 s))"
  using on_send_message_history [of sk d t1 t2 s]
  by (auto simp: history_bounded_def length_history_push split: if_splits)

lemma history_bounded_on_disconnect:
  "history_bounded s \<Longrightarrow> history_bounded (fst (on_disconnect sk t s))"
proof (cases "users s (sid sk)")
  case None
  then show "history_bounded s \<Longrightarrow> ?thesis" by (simp add: on_disconnect_unknown)
next
  case (Some u)
  show "history_bounded s \<Longrightarrow> ?thesis"
    by (auto simp: history_bounded_def on_disconnect_history[OF Some]
             split: option.splits if_splits)
qed


section \<open>Every reachable state is consistent\<close>

lemma presence_match_None: "presence_match s \<Longrightarrow> sockets s i = None \<Longrightarrow> users s i = None"
  by (simp add: presence_match_def)

lemma presence_match_Some:
  "presence_match s \<Longrightarrow> sockets s i = Some sk \<Longrightarrow>
   sid sk = i \<and> (\<exists>u. users s i = Some u \<and> u_username u = sock_username sk
                        \<and> u_room u = sock_room sk)"
  by (simp add: presence_match_def)

lemma members_match_on_connection:
  assumes "members_match s" and "users s (sid sk) = None"
  shows "members_match (fst (on_connection sk t1 t2 s))"
  unfolding members_match_def
proof (intro allI)
  fix r i
  have m: "\<And>r i. i \<in> set (members s r) \<longleftrightarrow> (\<exists>u. users s i = Some u \<and> u_room u = r)"
    using assms(1) by (simp add: members_match_def)
  show "i \<in> set (members (fst (on_connection sk t1 t2 s)) r)
        \<longleftrightarrow> (\<exists>u. users (fst (on_connection sk t1 t2 s)) i = Some u \<and> u_room u = r)"
    using assms(2) by (auto simp: members_on_connection on_connection_users m)
qed

lemma joined_match_on_connection:
  "joined_match s \<Longrightarrow> joined_match (fst (on_connection sk t1 t2 s))"
  by (auto simp: joined_match_def members_on_connection on_connection_joined
        on_connection_sockets)

lemma members_match_on_disconnect:
  assumes "members_match s"
  shows "members_match (fst (on_disconnect sk t s))"
  unfolding members_match_def
proof (intro allI)
  fix r i
  have m: "\<And>r i. i \<in> set (members s r) \<longleftrightarrow> (\<exists>u. users s i = Some u \<and> u_room u = r)"
    using assms(1) by (simp add: members_match_def)
  show "i \<in> set (members (fst (on_disconnect sk t s)) r)
        \<longleftrightarrow> (\<exists>u. users (fst (on_disconnect sk t s)) i = Some u \<and> u_room u = r)"
    by (auto simp: members_on_disconnect m split: option.splits)
qed

lemma members_match_on_send_message:
  "members_match s \<Longrightarrow> members_match (fst (on_send_message sk d t1 t2 s))"
  by (simp add: members_match_def)

lemma joined_match_on_send_message:
  "joined_match s \<Longrightarrow> joined_match (fst (on_send_message sk d t1 t2 s))"
  by (simp add: joined_match_def)

lemma presence_match_on_send_message:
  "presence_match s \<Longrightarrow> presence_match (fst (on_send_message sk d t1 t2 s))"
  by (simp add: presence_match_def)

lemma rooms_nonempty_on_send_message:
  "rooms_nonempty s \<Longrightarrow> rooms_nonempty (fst (on_send_message sk d t1 t2 s))"
  by (simp add: rooms_nonempty_def)

lemma rooms_distinct_on_send_message:
  "rooms_distinct s \<Longrightarrow> rooms_distinct (fst (on_send_message sk d t1 t2 s))"
  by (simp add: rooms_distinct_def)

lemma consistent_on_send_message:
  "consistent s \<Longrightarrow> consistent (fst (on_send_message sk d t1 t2 s))"
  by (simp add: consistent_def history_matches_on_send_message rooms_nonempty_on_send_message
        rooms_distinct_on_send_message members_match_on_send_message
        joined_match_on_send_message presence_match_on_send_message
        history_bounded_on_send_message)

subsection \<open>A connection is admitted\<close>

lemma consistent_connect:
  assumes c: "consistent s" and n: "sockets s i = None"
    and sk: "sk = \<lparr>sid = i, sock_username = un, sock_room = rm\<rparr>"
  shows "consistent (fst (on_connection sk t1 t2 (sio_connect sk s)))"
proof -
  let ?s0 = "sio_connect sk s"
  let ?s' = "fst (on_connection sk t1 t2 ?s0)"
  from c have p: "presence_match s" by (simp add: consistent_def)
  from p n have u: "users s i = None" by (rule presence_match_None)
  have i: "sid sk = i" by (simp add: sk)
  have 1: "history_matches ?s'"
    using c by (intro history_matches_on_connection) (simp add: consistent_def history_matches_def)
  have 2: "rooms_nonempty ?s'"
    using c by (intro rooms_nonempty_on_connection) (simp add: consistent_def rooms_nonempty_def)
  have 3: "rooms_distinct ?s'"
    using c by (intro rooms_distinct_on_connection) (simp add: consistent_def rooms_distinct_def)
  have 4: "members_match ?s'"
    using c u i by (intro members_match_on_connection) (simp_all add: consistent_def members_match_def)
  have j: "\<And>r. joined s r = set (members s r) \<union> {j. j = r \<and> sockets s j \<noteq> None}"
    using c by (simp add: consistent_def joined_match_def)
  have "joined_match ?s0"
    unfolding joined_match_def by (auto simp: i j)
  then have 5: "joined_match ?s'" by (rule joined_match_on_connection)
  have 7: "history_bounded ?s'"
    using c by (intro history_bounded_on_connection) (simp add: consistent_def history_bounded_def)
  have 6: "presence_match ?s'"
    using p u by (auto simp: presence_match_def on_connection_sockets on_connection_users i sk)
  from 1 2 3 4 5 6 7 show ?thesis by (simp add: consistent_def)
qed

subsection \<open>A socket disconnects\<close>

lemma consistent_disconnect:
  assumes c: "consistent s" and l: "sockets s i = Some sk"
  shows "consistent (fst (on_disconnect sk t
           (sio_close i s)))"
proof -
  let ?s0 = "sio_close i s"
  let ?s' = "fst (on_disconnect sk t ?s0)"
  from c have p: "presence_match s" by (simp add: consistent_def)
  from presence_match_Some [OF p l] obtain u where i: "sid sk = i"
    and u: "users s i = Some u" "u_username u = sock_username sk" "u_room u = sock_room sk"
    by blast
  have m: "\<And>r j. j \<in> set (members s r) \<longleftrightarrow> (\<exists>u. users s j = Some u \<and> u_room u = r)"
    using c by (simp add: consistent_def members_match_def)
  have 1: "history_matches ?s'"
    using c by (intro history_matches_on_disconnect) (simp add: consistent_def history_matches_def)
  have 2: "rooms_nonempty ?s'"
    using c by (intro rooms_nonempty_on_disconnect) (simp add: consistent_def rooms_nonempty_def)
  have 3: "rooms_distinct ?s'"
    using c by (intro rooms_distinct_on_disconnect) (simp add: consistent_def rooms_distinct_def)
  have 4: "members_match ?s'"
    using c by (intro members_match_on_disconnect) (simp add: consistent_def members_match_def)
  have 7: "history_bounded ?s'"
    using c by (intro history_bounded_on_disconnect) (simp add: consistent_def history_bounded_def)
  have j: "\<And>r. joined s r = set (members s r) \<union> {j. j = r \<and> sockets s j \<noteq> None}"
    using c by (simp add: consistent_def joined_match_def)
  have 5: "joined_match ?s'"
    unfolding joined_match_def
  proof
    fix r
    show "joined ?s' r = set (members ?s' r) \<union> {j. j = r \<and> sockets ?s' j \<noteq> None}"
      using u by (auto simp: members_on_disconnect i j m)
  qed
  have 6: "presence_match ?s'"
    using p by (auto simp: presence_match_def i)
  from 1 2 3 4 5 6 7 show ?thesis by (simp add: consistent_def)
qed

lemma consistent_init: "consistent init_state"
  by (simp add: consistent_def init_state_def history_matches_def rooms_nonempty_def
        rooms_distinct_def members_match_def joined_match_def presence_match_def
        history_bounded_def members_def)

lemma step_Connect:
  "step s (Connect i u r t1 t2) = Some (s', out) \<longleftrightarrow>
     sockets s i = None \<and>
     ((\<exists>e. admit u r = Inl e \<and> e \<noteq> TypeError \<and> s' = s \<and> out = [(ToSocket i, ConnectError e)])
      \<or> (\<exists>un rm. admit u r = Inr (un, rm) \<and>
            on_connection \<lparr>sid = i, sock_username = un, sock_room = rm\<rparr> t1 t2
              (sio_connect \<lparr>sid = i, sock_username = un, sock_room = rm\<rparr> s)
            = (s', out)))"
  by (auto simp: Let_def split: option.splits sum.splits)

lemma step_SendMessage:
  "step s (SendMessage i d t1 t2) = Some (s', out) \<longleftrightarrow>
     (\<exists>sk. sockets s i = Some sk \<and> on_send_message sk d t1 t2 s = (s', out))"
  by (simp split: option.splits)

lemma step_Disconnect:
  "step s (Disconnect i t) = Some (s', out) \<longleftrightarrow>
     (\<exists>sk. sockets s i = Some sk \<and>
        on_disconnect sk t
          (sio_close i s) = (s', out))"
  by (simp split: option.splits)

lemma consistent_step:
  assumes "consistent s" and "step s e = Some (s', out)"
  shows "consistent s'"
proof (cases e)
  case (Connect i u r t1 t2)
  from assms(2) [unfolded Connect step_Connect]
  have n: "sockets s i = None"
    and d: "(\<exists>e. admit u r = Inl e \<and> e \<noteq> TypeError \<and> s' = s \<and> out = [(ToSocket i, ConnectError e)])
      \<or> (\<exists>un rm. admit u r = Inr (un, rm) \<and>
            on_connection \<lparr>sid = i, sock_username = un, sock_room = rm\<rparr> t1 t2
              (sio_connect \<lparr>sid = i, sock_username = un, sock_room = rm\<rparr> s)
            = (s', out))"
    by blast+
  from d show ?thesis
  proof (elim disjE exE conjE)
    fix un rm
    assume "on_connection \<lparr>sid = i, sock_username = un, sock_room = rm\<rparr> t1 t2
              (sio_connect \<lparr>sid = i, sock_username = un, sock_room = rm\<rparr> s)
            = (s', out)"
    then have "s' = fst (on_connection \<lparr>sid = i, sock_username = un, sock_room = rm\<rparr> t1 t2
              (sio_connect \<lparr>sid = i, sock_username = un, sock_room = rm\<rparr> s))"
      by simp
    with consistent_connect [OF assms(1) n refl] show ?thesis by simp
  next
    fix e assume "s' = s"
    with assms(1) show ?thesis by simp
  qed
next
  case (SendMessage i d t1 t2)
  from assms(2) [unfolded SendMessage step_SendMessage]
  obtain sk where "on_send_message sk d t1 t2 s = (s', out)" by blast
  then have "s' = fst (on_send_message sk d t1 t2 s)" by simp
  with assms(1) show ?thesis by (simp add: consistent_on_send_message)
next
  case (Typing i)
  with assms show ?thesis by (auto simp: on_typing_def split: option.splits)
next
  case (StopTyping i)
  with assms show ?thesis by (auto simp: on_stop_typing_def split: option.splits)
next
  case (Disconnect i t)
  from assms(2) [unfolded Disconnect step_Disconnect]
  obtain sk where l: "sockets s i = Some sk"
    and "on_disconnect sk t
           (sio_close i s) = (s', out)"
    by blast
  then have "s' = fst (on_disconnect sk t
           (sio_close i s))"
    by simp
  with consistent_disconnect [OF assms(1) l] show ?thesis by simp
qed

lemma reachable_consistent: "reachable s \<Longrightarrow> consistent s"
  by (induction rule: reachable.induct) (auto intro: consistent_init consistent_step)


section \<open>Runs and example states\<close>

lemma run_reachable: "reachable s \<Longrightarrow> run s es = Some (s', out) \<Longrightarrow> reachable s'"
proof (induction es arbitrary: s out)
  case Nil
  then show ?case by simp
next
  case (Cons e es)
  then show ?case
    by (auto split: option.splits prod.splits intro: reachable_step)
qed

lemma admit_alice: "admit (JStr (ascii ''Alice'')) JUndefined = Inr (ascii ''Alice'', ascii ''general'')"
  by (simp add: admit_JStr trim_general) (simp add: trim_def ascii_def is_ws_def)

lemma admit_bob: "admit (JStr (ascii '' Bob '')) (JStr (ascii ''general'')) = Inr (ascii ''Bob'', ascii ''general'')"
  by (simp add: admit_JStr trim_general) (simp add: trim_def ascii_def is_ws_def)

lemma step_alice: "step init_state alice_connects = Some (on_connection alice 1 2 (sio_connect alice init_state))"
  by (simp add: alice_connects_def admit_alice alice_def init_state_def Let_def)

lemma reachable_one_member: "reachable one_member"
  unfolding one_member_def
  by (rule reachable_step [OF reachable_init, of alice_connects _ "snd (on_connection alice 1 2 (sio_connect alice init_state))"])
     (simp add: step_alice)

lemma one_member_fields:
  "rooms one_member = [ascii ''general'' \<mapsto> [ascii ''a1'']]"
  "messageHistory one_member = [ascii ''general'' \<mapsto> []]"
  "sockets one_member = [ascii ''a1'' \<mapsto> alice]"
  "users one_member = [ascii ''a1'' \<mapsto> \<lparr>u_username = ascii ''Alice'', u_room = ascii ''general'', joinedAt = 1\<rparr>]"
  by (simp_all add: one_member_def on_connection_rooms on_connection_history on_connection_sockets
        on_connection_users on_connection_joined init_state_def members_def alice_def set_add_def)

lemma ids_differ: "ascii ''b2'' \<noteq> ascii ''a1''" "ascii ''a1'' \<noteq> ascii ''b2''"
  by (simp_all add: ascii_def)

lemma step_bob: "step one_member bob_connects = Some (on_connection bob 3 4 (sio_connect bob one_member))"
  by (simp add: bob_connects_def admit_bob bob_def one_member_fields ids_differ Let_def)

lemma reachable_two_members: "reachable two_members"
  unfolding two_members_def
  by (rule reachable_step [OF reachable_one_member, of bob_connects _ "snd (on_connection bob 3 4 (sio_connect bob one_member))"])
     (simp add: step_bob)

lemma two_members_fields:
  "rooms two_members = [ascii ''general'' \<mapsto> [ascii ''a1'', ascii ''b2'']]"
  "messageHistory two_members = [ascii ''general'' \<mapsto> []]"
  "sockets two_members = [ascii ''a1'' \<mapsto> alice, ascii ''b2'' \<mapsto> bob]"
  "users two_members = [ascii ''a1'' \<mapsto> \<lparr>u_username = ascii ''Alice'', u_room = ascii ''general'', joinedAt = 1\<rparr>,
       ascii ''b2'' \<mapsto> \<lparr>u_username = ascii ''Bob'', u_room = ascii ''general'', joinedAt = 3\<rparr>]"
  by (auto simp: two_members_def on_connection_rooms on_connection_history on_connection_sockets
        on_connection_users on_connection_joined one_member_fields members_def bob_def set_add_def
        ids_differ insert_commute)


section \<open>Registry, sending and room defaults\<close>

lemma on_send_message_JStr:
  "on_send_message sk (Data (JStr b)) t1 t2 s =
     (if trim b = [] then (s, [])
      else if length (trim b) > 1000
      then (s, [(ToSocket (sid sk), ErrorSignal (ascii ''Message too long''))])
      else (case messageHistory s (sock_room sk) of
              None \<Rightarrow> (s, [(ToSocket (sid sk), ErrorSignal (ascii ''Failed to send message''))])
            | Some h \<Rightarrow>
               (s\<lparr>messageHistory := (messageHistory s)
                     (sock_room sk \<mapsto> history_push h (messageData sk (trim b) t1 t2))\<rparr>,
                [(ToRoom (sock_room sk), NewMessage (messageData sk (trim b) t1 t2))])))"
proof (cases "b = []")
  case True
  then show ?thesis by (simp add: on_send_message_def)
next
  case False
  then show ?thesis by (simp add: on_send_message_def Let_def)
qed

lemma trim_letters: "0 < n \<Longrightarrow> trim (replicate n 0x61) = replicate n 0x61"
  by (rule trim_clean) (simp_all add: is_ws_def hd_replicate last_replicate)

lemma trim_hi: "trim (ascii ''hi'') = ascii ''hi''"
  by (rule trim_clean) (simp_all add: ascii_def is_ws_def)

lemma members_are_sockets:
  assumes c: "consistent s"
  shows "set (members s r) = {i. \<exists>sk. sockets s i = Some sk \<and> sock_room sk = r}"
proof (intro set_eqI iffI)
  from c have m: "\<And>i. i \<in> set (members s r) \<longleftrightarrow> (\<exists>u. users s i = Some u \<and> u_room u = r)"
    by (simp add: consistent_def members_match_def)
  from c have p: "presence_match s" by (simp add: consistent_def)
  {
    fix i assume "i \<in> set (members s r)"
    then obtain u where u: "users s i = Some u" "u_room u = r" using m by blast
    with presence_match_None [OF p, of i] obtain sk where sk: "sockets s i = Some sk"
      by (cases "sockets s i") auto
    from presence_match_Some [OF p sk] u have "sock_room sk = r" by auto
    with sk show "i \<in> {i. \<exists>sk. sockets s i = Some sk \<and> sock_room sk = r}" by blast
  next
    fix i assume "i \<in> {i. \<exists>sk. sockets s i = Some sk \<and> sock_room sk = r}"
    then obtain sk where sk: "sockets s i = Some sk" "sock_room sk = r" by blast
    from presence_match_Some [OF p sk(1)] sk(2) show "i \<in> set (members s r)"
      using m by auto
  }
qed

text \<open>
  C1. In every reachable state, that is between any two handler executions, a room is in
  \<open>rooms\<close> exactly when its member count is positive, and it has an entry in
  \<open>messageHistory\<close> exactly when it is in \<open>rooms\<close>. The member set of a room is the
  set of connected sockets that were admitted to it.
\<close>

theorem registry_invariant:
  assumes "reachable s"
  shows "(r \<in> dom (rooms s) \<longleftrightarrow> memberCount s r > 0)
       \<and> (r \<in> dom (messageHistory s) \<longleftrightarrow> r \<in> dom (rooms s))
       \<and> set (members s r) = {i. \<exists>sk. sockets s i = Some sk \<and> sock_room sk = r}"
proof -
  from assms have c: "consistent s" by (rule reachable_consistent)
  then have n: "\<And>ms. rooms s r = Some ms \<Longrightarrow> ms \<noteq> []"
    by (simp add: consistent_def rooms_nonempty_def)
  have 1: "r \<in> dom (rooms s) \<longleftrightarrow> memberCount s r > 0"
    using n by (auto simp: memberCount_def split: option.splits)
  from c have 2: "r \<in> dom (messageHistory s) \<longleftrightarrow> r \<in> dom (rooms s)"
    by (simp add: consistent_def history_matches_def)
  from 1 2 members_are_sockets [OF c, of r] show ?thesis by blast
qed

theorem registry_invariant_witness:
  "reachable two_members
   \<and> ascii ''general'' \<in> dom (rooms two_members)
   \<and> memberCount two_members (ascii ''general'') = 2
   \<and> ascii ''general'' \<in> dom (messageHistory two_members)
   \<and> ascii ''lobby'' \<notin> dom (rooms two_members)
   \<and> memberCount two_members (ascii ''lobby'') = 0
   \<and> {i. \<exists>sk. sockets two_members i = Some sk \<and> sock_room sk = ascii ''general''}
       = {ascii ''a1'', ascii ''b2''}"
  using registry_invariant [OF reachable_two_members, of "ascii ''general''"]
    registry_invariant [OF reachable_two_members, of "ascii ''lobby''"]
  by (simp add: reachable_two_members two_members_fields memberCount_def members_def)
     (simp add: ascii_def)

text \<open>
  The length check of line 106 reads the trimmed body: a body of 1000 letters and a
  trailing space has 1001 characters, and it is stored and broadcast.
\<close>

theorem send_message_padded_counterexample:
  "length (replicate 1000 (0x61 :: code_unit) @ [0x20]) = 1001
   \<and> messageHistory one_member (ascii ''general'') = Some []
   \<and> snd (on_send_message alice (Data (JStr (replicate 1000 0x61 @ [0x20]))) 5 6 one_member)
       = [(ToRoom (ascii ''general''), NewMessage (messageData alice (replicate 1000 0x61) 5 6))]
   \<and> messageHistory (fst (on_send_message alice (Data (JStr (replicate 1000 0x61 @ [0x20]))) 5 6
        one_member)) (ascii ''general'')
       = Some [messageData alice (replicate 1000 0x61) 5 6]"
proof -
  have w: "is_ws 0x20" by (simp add: is_ws_def)
  have t: "trim (replicate 1000 0x61 @ [0x20]) = replicate 1000 0x61"
    by (simp only: trim_snoc_ws [OF w]) (simp add: trim_letters)
  show ?thesis
    by (simp add: on_send_message_JStr t one_member_fields alice_def history_push_def)
qed

text \<open>
  C4 (as the code has it). A body that trims to the empty string, or an absent
  \<open>message\<close> field, is dropped: nothing is emitted and the state is unchanged. A body
  that is longer than 1000 characters after trimming is answered with
  \<open>error {message: 'Message too long'}\<close> to the sender alone, and the state is unchanged;
  this covers every 1001-character body that neither starts nor ends with whitespace.
\<close>

theorem send_message_invalid:
  "(trim b = [] \<longrightarrow> on_send_message sk (Data (JStr b)) t1 t2 s = (s, []))
   \<and> on_send_message sk (Data JUndefined) t1 t2 s = (s, [])
   \<and> (length (trim b) > 1000 \<longrightarrow>
        on_send_message sk (Data (JStr b)) t1 t2 s
          = (s, [(ToSocket (sid sk), ErrorSignal (ascii ''Message too long''))])
        \<and> recipients s (ToSocket (sid sk)) = {sid sk})
   \<and> (length b = 1001 \<and> \<not> is_ws (hd b) \<and> \<not> is_ws (last b) \<longrightarrow> length (trim b) > 1000)"
proof (intro conjI impI)
  show "on_send_message sk (Data JUndefined) t1 t2 s = (s, [])"
    by (simp add: on_send_message_def)
next
  assume "length b = 1001 \<and> \<not> is_ws (hd b) \<and> \<not> is_ws (last b)"
  moreover from this have "b \<noteq> []" by auto
  ultimately have "trim b = b" by (simp add: trim_clean)
  with \<open>length b = 1001 \<and> _\<close> show "length (trim b) > 1000" by simp
next
  assume "length (trim b) > 1000"
  moreover from this have "trim b \<noteq> []" by auto
  ultimately show "on_send_message sk (Data (JStr b)) t1 t2 s
          = (s, [(ToSocket (sid sk), ErrorSignal (ascii ''Message too long''))])"
    by (simp add: on_send_message_JStr)
qed (simp_all add: on_send_message_JStr)

theorem send_message_invalid_witness:
  "trim [0x20] = []
   \<and> on_send_message alice (Data (JStr [0x20])) 5 6 one_member = (one_member, [])
   \<and> length (trim (replicate 1001 0x61)) > 1000
   \<and> on_send_message alice (Data (JStr (replicate 1001 0x61))) 5 6 one_member
       = (one_member, [(ToSocket (ascii ''a1''), ErrorSignal (ascii ''Message too long''))])"
  using send_message_invalid [of "[0x20]" alice 5 6 one_member]
    send_message_invalid [of "replicate 1001 0x61" alice 5 6 one_member]
  by (simp add: trim_letters alice_def) (simp add: trim_def is_ws_def)

text \<open>
  The branch of a missing history (lines 120--121 and the \<open>catch\<close> block): \<open>history\<close> is
  \<open>undefined\<close>, \<open>history.push\<close> throws, and the sender is answered with the error of line
  131. The state is left as it was.
\<close>

lemma on_send_message_missing_history:
  assumes "messageHistory s (sock_room sk) = None"
    and "trim b \<noteq> []" and "length (trim b) \<le> 1000"
  shows "on_send_message sk (Data (JStr b)) t1 t2 s
           = (s, [(ToSocket (sid sk), ErrorSignal (ascii ''Failed to send message''))])"
  using assms by (simp add: on_send_message_JStr)

text \<open>
  C10. For an admissible username, a room that is absent, the empty string or any other
  falsy value is replaced by \<open>'general'\<close>. A non-empty room string of whitespace only
  is not replaced: it is trimmed to the empty string, and the connection is registered
  in the room whose id is the empty string.
\<close>

theorem room_default:
  assumes "trim u \<noteq> []" and "length u \<le> 50"
  shows "(\<not> truthy room0 \<longrightarrow> admit (JStr u) room0 = Inr (trim u, ascii ''general''))
       \<and> admit (JStr u) JUndefined = Inr (trim u, ascii ''general'')
       \<and> admit (JStr u) (JStr []) = Inr (trim u, ascii ''general'')
       \<and> (r \<noteq> [] \<and> (\<forall>c\<in>set r. is_ws c) \<longrightarrow>
            admit (JStr u) (JStr r) = Inr (trim u, [])
            \<and> (sockets s i = None \<longrightarrow>
                 (\<exists>s' out. step s (Connect i (JStr u) (JStr r) t1 t2) = Some (s', out)
                    \<and> sockets s' i = Some \<lparr>sid = i, sock_username = trim u, sock_room = []\<rparr>
                    \<and> i \<in> set (members s' [])
                    \<and> users s' i = Some \<lparr>u_username = trim u, u_room = [], joinedAt = t1\<rparr>)))"
proof (intro conjI impI)
  assume "\<not> truthy room0"
  with assms show "admit (JStr u) room0 = Inr (trim u, ascii ''general'')"
    by (simp add: admit_JStr trim_general)
next
  from assms show "admit (JStr u) JUndefined = Inr (trim u, ascii ''general'')"
    by (simp add: admit_JStr trim_general)
  from assms show "admit (JStr u) (JStr []) = Inr (trim u, ascii ''general'')"
    by (simp add: admit_JStr trim_general)
next
  assume r: "r \<noteq> [] \<and> (\<forall>c\<in>set r. is_ws c)"
  then have "trim r = []" by (simp add: trim_all_ws)
  with assms r show a: "admit (JStr u) (JStr r) = Inr (trim u, [])"
    by (simp add: admit_JStr)
  assume n: "sockets s i = None"
  let ?sk = "\<lparr>sid = i, sock_username = trim u, sock_room = []\<rparr>"
  let ?s0 = "sio_connect ?sk s"
  let ?s' = "fst (on_connection ?sk t1 t2 ?s0)"
  have st: "step s (Connect i (JStr u) (JStr r) t1 t2)
            = Some (?s', snd (on_connection ?sk t1 t2 ?s0))"
    by (simp add: n a Let_def)
  have 1: "sockets ?s' i = Some ?sk" by (simp add: on_connection_sockets)
  have 2: "i \<in> set (members ?s' [])" by (simp add: members_on_connection)
  have 3: "users ?s' i = Some \<lparr>u_username = trim u, u_room = [], joinedAt = t1\<rparr>"
    by (simp add: on_connection_users)
  from st 1 2 3
  show "\<exists>s' out. step s (Connect i (JStr u) (JStr r) t1 t2) = Some (s', out)
          \<and> sockets s' i = Some ?sk
          \<and> i \<in> set (members s' [])
          \<and> users s' i = Some \<lparr>u_username = trim u, u_room = [], joinedAt = t1\<rparr>"
    by blast
qed

theorem room_default_witness:
  "trim (ascii ''Bob'') \<noteq> [] \<and> length (ascii ''Bob'') \<le> 50
   \<and> admit (JStr (ascii ''Bob'')) JUndefined = Inr (ascii ''Bob'', ascii ''general'')
   \<and> admit (JStr (ascii ''Bob'')) (JStr []) = Inr (ascii ''Bob'', ascii ''general'')
   \<and> admit (JStr (ascii ''Bob'')) (JStr [0x20, 0x20]) = Inr (ascii ''Bob'', [])
   \<and> (\<exists>s' out. step init_state (Connect (ascii ''b2'') (JStr (ascii ''Bob'')) (JStr [0x20, 0x20]) 3 4)
                  = Some (s', out)
        \<and> ascii ''b2'' \<in> set (members s' []))"
proof -
  have t: "trim (ascii ''Bob'') = ascii ''Bob''"
    by (rule trim_clean) (simp_all add: ascii_def is_ws_def)
  have w: "\<forall>c\<in>set [0x20, 0x20]. is_ws c" by (simp add: is_ws_def)
  have n: "sockets init_state (ascii ''b2'') = None" by (simp add: init_state_def)
  have l: "length (ascii ''Bob'') \<le> 50" by (simp add: ascii_def)
  have e: "trim (ascii ''Bob'') \<noteq> []" unfolding t by (simp add: ascii_def)
  from room_default [OF e l, of JUndefined "[0x20, 0x20]" init_state "ascii ''b2''" 3 4] w n
  have "admit (JStr (ascii ''Bob'')) JUndefined = Inr (ascii ''Bob'', ascii ''general'')"
    and "admit (JStr (ascii ''Bob'')) (JStr []) = Inr (ascii ''Bob'', ascii ''general'')"
    and "admit (JStr (ascii ''Bob'')) (JStr [0x20, 0x20]) = Inr (ascii ''Bob'', [])"
    and "\<exists>s' out. step init_state (Connect (ascii ''b2'') (JStr (ascii ''Bob'')) (JStr [0x20, 0x20]) 3 4)
                  = Some (s', out)
        \<and> ascii ''b2'' \<in> set (members s' [])"
    unfolding t by blast+
  with e l show ?thesis by blast
qed

subsection \<open>The history ring\<close>

lemma history_push_fifo:
  "length h \<le> 100 \<Longrightarrow>
   history_push h m = (if length h < 100 then h @ [m] else tl h @ [m])"
  by (cases h) (auto simp: history_push_def Let_def)

lemma history_push_slice:
  "length h \<le> 100 \<Longrightarrow> history_push h m = slice_last 100 (h @ [m])"
proof (cases h)
  case Nil
  then show ?thesis by (simp add: history_push_def slice_last_def)
next
  case (Cons a h')
  assume "length h \<le> 100"
  then show ?thesis
    by (cases "length h < 100") (simp_all add: history_push_fifo slice_last_def Cons)
qed

lemma slice_last_append_slice:
  "slice_last n (slice_last n xs @ ys) = slice_last n (xs @ ys)"
  by (cases "n \<le> length xs") (simp_all add: slice_last_def add.commute)

lemma length_slice_last: "length (slice_last n xs) = min n (length xs)"
  by (simp add: slice_last_def)

lemma slice_last_covered:
  "n \<le> length ys \<Longrightarrow> slice_last n (xs @ ys) = slice_last n ys"
  by (simp add: slice_last_def)

lemma slice_last_slice_last:
  "n \<le> m \<Longrightarrow> slice_last n (slice_last m xs) = slice_last n xs"
  by (cases "m \<le> length xs") (simp_all add: slice_last_def)

lemma on_send_message_valid_history:
  assumes "messageHistory s (sock_room sk) = Some h" "trim b \<noteq> []" "length (trim b) \<le> 1000"
  shows "messageHistory (fst (on_send_message sk (Data (JStr b)) t1 t2 s))
           = (messageHistory s)(sock_room sk \<mapsto> history_push h (messageData sk (trim b) t1 t2))"
  using assms by (simp add: on_send_message_JStr)

lemma sends_history:
  assumes "messageHistory s R = Some h" "length h \<le> 100" "\<forall>x\<in>set xs. valid_send R x"
  shows "messageHistory (sends s xs) R = Some (slice_last 100 (h @ map sent xs))"
  using assms
proof (induction xs arbitrary: s h)
  case Nil
  then show ?case by (simp add: slice_last_def)
next
  case (Cons x xs)
  obtain sk b t1 t2 where x: "x = (sk, b, t1, t2)" by (cases x)
  from Cons.prems x have v: "sock_room sk = R" "trim b \<noteq> []" "length (trim b) \<le> 1000"
    by simp_all
  let ?s1 = "fst (on_send_message sk (Data (JStr b)) t1 t2 s)"
  let ?h1 = "slice_last 100 (h @ [sent x])"
  from Cons.prems(1) v have "messageHistory ?s1 R = Some (history_push h (sent x))"
    by (simp add: on_send_message_valid_history x)
  with Cons.prems(2) have 1: "messageHistory ?s1 R = Some ?h1"
    by (simp add: history_push_slice)
  have 2: "length ?h1 \<le> 100" by (simp add: length_slice_last)
  from Cons.prems(3) have 3: "\<forall>x\<in>set xs. valid_send R x" by simp
  from Cons.IH [OF 1 2 3] have "messageHistory (sends ?s1 xs) R
      = Some (slice_last 100 (?h1 @ map sent xs))" .
  then show ?case by (simp add: x slice_last_append_slice del: sent.simps)
qed

lemma sends_rooms [simp]: "rooms (sends s xs) = rooms s"
  by (induction s xs rule: sends.induct) simp_all

lemma sends_sockets [simp]: "sockets (sends s xs) = sockets s"
  by (induction s xs rule: sends.induct) simp_all

lemma sends_take_Suc:
  "k < length xs \<Longrightarrow>
   sends s (take (Suc k) xs) =
     (case xs ! k of (sk, b, t1, t2) \<Rightarrow>
        fst (on_send_message sk (Data (JStr b)) t1 t2 (sends s (take k xs))))"
proof (induction s xs arbitrary: k rule: sends.induct)
  case (1 s)
  then show ?case by simp
next
  case (2 s sk b t1 t2 xs)
  then show ?case by (cases k) (simp_all split: prod.splits)
qed

lemma recent_sio_connect [simp]: "recent (sio_connect sk s) r = recent s r"
  by (simp add: recent_def)

lemma recent_on_connection:
  "rooms s (sock_room sk) \<noteq> None \<Longrightarrow> recent (fst (on_connection sk t1 t2 s)) r = recent s r"
  by (auto simp: recent_def on_connection_history)

lemma joins_Connect:
  "joins R (Connect j u r t1 t2) \<longleftrightarrow> (\<exists>un. admit u r = Inr (un, R))"
  by (auto split: sum.splits)

lemma consistent_sends: "consistent s \<Longrightarrow> consistent (sends s xs)"
  by (induction s xs rule: sends.induct) (simp_all add: consistent_on_send_message)

text \<open>
  C2. Let a room with a history be the target of more than 100 sends that pass the checks,
  starting in a reachable state. After every prefix of the sends the history is the last
  100 of everything stored so far, so it never holds more than 100 messages; each send
  appends its message and, when the history was full, drops exactly the oldest one. After
  all sends the history holds the last 100 of the messages sent, \<open>recent\<close> is exactly
  the last 50 of them in send order, and that is the \<open>message_history\<close> a connection
  admitted to the room next receives.
\<close>

theorem history_ring:
  assumes "reachable s" and "messageHistory s R = Some h"
    and "\<forall>x\<in>set xs. valid_send R x" and "length xs > 100"
  shows "(\<forall>k\<le>length xs.
            messageHistory (sends s (take k xs)) R
              = Some (slice_last 100 (h @ map sent (take k xs)))
            \<and> length (slice_last 100 (h @ map sent (take k xs))) \<le> 100)
       \<and> (\<forall>k<length xs. \<forall>hk. messageHistory (sends s (take k xs)) R = Some hk \<longrightarrow>
            messageHistory (sends s (take (Suc k) xs)) R
              = Some (if length hk < 100 then hk @ [sent (xs ! k)] else tl hk @ [sent (xs ! k)]))
       \<and> messageHistory (sends s xs) R = Some (slice_last 100 (map sent xs))
       \<and> recent (sends s xs) R = slice_last 50 (map sent xs)
       \<and> length (recent (sends s xs) R) = 50
       \<and> (\<forall>j u r t1 t2 s' out.
            joins R (Connect j u r t1 t2)
            \<and> step (sends s xs) (Connect j u r t1 t2) = Some (s', out) \<longrightarrow>
            hd out = (ToSocket j, MessageHistory (slice_last 50 (map sent xs))))"
proof -
  from assms(1) have c: "consistent s" by (rule reachable_consistent)
  with assms(2) have b: "length h \<le> 100" by (simp add: consistent_def history_bounded_def)
  have pre: "messageHistory (sends s (take k xs)) R
               = Some (slice_last 100 (h @ map sent (take k xs)))" for k
  proof -
    have "\<forall>x\<in>set (take k xs). valid_send R x"
      using assms(3) by (meson in_set_takeD)
    from sends_history [OF assms(2) b this] show ?thesis .
  qed
  have 1: "\<forall>k\<le>length xs.
            messageHistory (sends s (take k xs)) R
              = Some (slice_last 100 (h @ map sent (take k xs)))
            \<and> length (slice_last 100 (h @ map sent (take k xs))) \<le> 100"
    by (simp add: pre length_slice_last)
  have 2: "\<forall>k<length xs. \<forall>hk. messageHistory (sends s (take k xs)) R = Some hk \<longrightarrow>
            messageHistory (sends s (take (Suc k) xs)) R
              = Some (if length hk < 100 then hk @ [sent (xs ! k)] else tl hk @ [sent (xs ! k)])"
  proof (intro allI impI)
    fix k hk
    assume k: "k < length xs" and hk: "messageHistory (sends s (take k xs)) R = Some hk"
    obtain sk b t1 t2 where x: "xs ! k = (sk, b, t1, t2)" by (cases "xs ! k")
    from k assms(3) have "valid_send R (xs ! k)" by simp
    with x have v: "sock_room sk = R" "trim b \<noteq> []" "length (trim b) \<le> 1000" by simp_all
    from hk pre [of k] have l: "length hk \<le> 100" by (auto simp: length_slice_last)
    from hk v have "messageHistory (fst (on_send_message sk (Data (JStr b)) t1 t2
                       (sends s (take k xs)))) R
                    = Some (history_push hk (messageData sk (trim b) t1 t2))"
      by (simp add: on_send_message_valid_history)
    with l show "messageHistory (sends s (take (Suc k) xs)) R
              = Some (if length hk < 100 then hk @ [sent (xs ! k)] else tl hk @ [sent (xs ! k)])"
      by (simp add: sends_take_Suc [OF k] x history_push_fifo)
  qed
  from assms(4) have 3: "messageHistory (sends s xs) R = Some (slice_last 100 (map sent xs))"
    using pre [of "length xs"] by (simp add: slice_last_covered)
  from assms(4) have 4: "recent (sends s xs) R = slice_last 50 (map sent xs)"
    by (simp add: recent_def 3 slice_last_slice_last)
  from assms(4) have 5: "length (recent (sends s xs) R) = 50"
    by (simp add: 4 length_slice_last)
  have 6: "\<forall>j u r t1 t2 s' out.
            joins R (Connect j u r t1 t2)
            \<and> step (sends s xs) (Connect j u r t1 t2) = Some (s', out) \<longrightarrow>
            hd out = (ToSocket j, MessageHistory (slice_last 50 (map sent xs)))"
  proof (intro allI impI, elim conjE)
    fix j u r t1 t2 s' out
    assume "joins R (Connect j u r t1 t2)"
    then obtain un where a: "admit u r = Inr (un, R)" unfolding joins_Connect by blast
    let ?sk = "\<lparr>sid = j, sock_username = un, sock_room = R\<rparr>"
    let ?s0 = "sio_connect ?sk (sends s xs)"
    assume "step (sends s xs) (Connect j u r t1 t2) = Some (s', out)"
    with a have o: "on_connection ?sk t1 t2 ?s0 = (s', out)"
      unfolding step_Connect by auto
    from c assms(2) have "rooms s R \<noteq> None"
      by (auto simp: consistent_def history_matches_def)
    then have "rooms ?s0 (sock_room ?sk) \<noteq> None" by simp
    from recent_on_connection [OF this, of t1 t2 R]
    have "recent (fst (on_connection ?sk t1 t2 ?s0)) R = recent (sends s xs) R" by simp
    moreover from o have "out = snd (on_connection ?sk t1 t2 ?s0)" by simp
    ultimately show "hd out = (ToSocket j, MessageHistory (slice_last 50 (map sent xs)))"
      by (simp add: on_connection_out 4)
  qed
  from 1 2 3 4 5 6 show ?thesis by blast
qed

lemma valid_hi: "valid_send (ascii ''general'') (alice, ascii ''hi'', 5, 6)"
  by (simp add: alice_def trim_hi) (simp add: ascii_def)

theorem history_ring_witness:
  "reachable one_member
   \<and> messageHistory one_member (ascii ''general'') = Some []
   \<and> valid_send (ascii ''general'') (alice, ascii ''hi'', 5, 6)
   \<and> length (replicate 101 (alice, ascii ''hi'', 5 :: nat, 6 :: nat)) > 100
   \<and> messageHistory (sends one_member (replicate 101 (alice, ascii ''hi'', 5, 6))) (ascii ''general'')
       = Some (replicate 100 (messageData alice (ascii ''hi'') 5 6))
   \<and> recent (sends one_member (replicate 101 (alice, ascii ''hi'', 5, 6))) (ascii ''general'')
       = replicate 50 (messageData alice (ascii ''hi'') 5 6)"
proof -
  have 1: "messageHistory one_member (ascii ''general'') = Some []"
    by (simp add: one_member_fields)
  have 2: "\<forall>x\<in>set (replicate 101 (alice, ascii ''hi'', 5, 6)). valid_send (ascii ''general'') x"
    using valid_hi by simp
  have 3: "length (replicate 101 (alice, ascii ''hi'', 5 :: nat, 6 :: nat)) > 100" by simp
  from history_ring [OF reachable_one_member 1 2 3]
  have "messageHistory (sends one_member (replicate 101 (alice, ascii ''hi'', 5, 6))) (ascii ''general'')
          = Some (slice_last 100 (map sent (replicate 101 (alice, ascii ''hi'', 5, 6))))"
    and "recent (sends one_member (replicate 101 (alice, ascii ''hi'', 5, 6))) (ascii ''general'')
          = slice_last 50 (map sent (replicate 101 (alice, ascii ''hi'', 5, 6)))"
    by blast+
  then have "messageHistory (sends one_member (replicate 101 (alice, ascii ''hi'', 5, 6))) (ascii ''general'')
       = Some (replicate 100 (messageData alice (ascii ''hi'') 5 6))"
    and "recent (sends one_member (replicate 101 (alice, ascii ''hi'', 5, 6))) (ascii ''general'')
       = replicate 50 (messageData alice (ascii ''hi'') 5 6)"
    by (simp_all add: slice_last_def trim_hi)
  with reachable_one_member 1 valid_hi 3 show ?thesis by blast
qed

text \<open>
  No run reaches that branch: in a reachable state the room of a connected socket has the
  socket among its members and has a history.
\<close>

lemma connected_room_has_history:
  assumes "reachable s" and "sockets s i = Some sk"
  shows "sid sk = i \<and> i \<in> set (members s (sock_room sk))
       \<and> (\<exists>h. messageHistory s (sock_room sk) = Some h)"
proof -
  let ?r = "sock_room sk"
  from assms(1) have c: "consistent s" by (rule reachable_consistent)
  then have p: "presence_match s" by (simp add: consistent_def)
  from presence_match_Some [OF p assms(2)] obtain u where i: "sid sk = i"
    and u: "users s i = Some u" "u_room u = ?r" by blast
  from c u have mem: "i \<in> set (members s ?r)" by (auto simp: consistent_def members_match_def)
  then have "rooms s ?r \<noteq> None" by (cases "rooms s ?r") (auto simp: members_def)
  with c have "\<exists>h. messageHistory s ?r = Some h"
    by (auto simp: consistent_def history_matches_def)
  with i mem show ?thesis by (intro conjI)
qed

lemma members_receive:
  assumes "consistent s"
  shows "set (members s r) \<subseteq> recipients s (ToRoom r)"
proof -
  from assms have "joined_match s" by (simp only: consistent_def)
  then have "joined s r = set (members s r) \<union> {i. i = r \<and> sockets s i \<noteq> None}"
    by (simp only: joined_match_def)
  then show ?thesis by (simp only: recipients.simps) blast
qed

text \<open>
  C5. A send from a connected socket that passes the checks, in a reachable state: the
  room of the socket has a history; the message carries the socket's username, the trimmed
  body, the second clock reading and the socket's room; the new history of the room is the
  old one with the message appended, without its oldest entry when it was full; and the
  only event emitted is \<open>new_message\<close> with that message to the room, which every
  member of the room receives, the sender among them.
\<close>

theorem send_message_valid:
  assumes "reachable s" and "sockets s i = Some sk"
    and "trim b \<noteq> []" and "length (trim b) \<le> 1000"
  shows "\<exists>h s' m.
           messageHistory s (sock_room sk) = Some h
         \<and> m = messageData sk (trim b) t1 t2
         \<and> msg_username m = sock_username sk \<and> msg_message m = trim b
         \<and> msg_timestamp m = t2 \<and> msg_room m = sock_room sk
         \<and> step s (SendMessage i (Data (JStr b)) t1 t2)
             = Some (s', [(ToRoom (sock_room sk), NewMessage m)])
         \<and> messageHistory s'
             = (messageHistory s)(sock_room sk \<mapsto> (if length h < 100 then h @ [m] else tl h @ [m]))
         \<and> users s' = users s \<and> rooms s' = rooms s
         \<and> set (members s' (sock_room sk)) \<subseteq> recipients s' (ToRoom (sock_room sk))
         \<and> i \<in> recipients s' (ToRoom (sock_room sk))"
proof -
  let ?r = "sock_room sk"
  let ?m = "messageData sk (trim b) t1 t2"
  let ?s' = "fst (on_send_message sk (Data (JStr b)) t1 t2 s)"
  from assms(1) have c: "consistent s" by (rule reachable_consistent)
  from connected_room_has_history [OF assms(1,2)] obtain h
    where mem: "i \<in> set (members s ?r)" and h: "messageHistory s ?r = Some h" by blast
  from c h have b: "length h \<le> 100" by (simp add: consistent_def history_bounded_def)
  have st: "step s (SendMessage i (Data (JStr b)) t1 t2)
             = Some (?s', [(ToRoom ?r, NewMessage ?m)])"
    using assms h by (simp add: on_send_message_JStr)
  have "messageHistory ?s' = (messageHistory s)(?r \<mapsto> history_push h ?m)"
    using h assms(3,4) by (rule on_send_message_valid_history)
  then have hs: "messageHistory ?s'
             = (messageHistory s)(?r \<mapsto> (if length h < 100 then h @ [?m] else tl h @ [?m]))"
    by (simp only: history_push_fifo [OF b])
  have f: "msg_username ?m = sock_username sk \<and> msg_message ?m = trim b
         \<and> msg_timestamp ?m = t2 \<and> msg_room ?m = ?r"
    by (simp add: messageData_def)
  from c have c': "consistent ?s'" by (rule consistent_on_send_message)
  have r: "set (members ?s' ?r) \<subseteq> recipients ?s' (ToRoom ?r)"
    using c' by (rule members_receive)
  have "i \<in> set (members ?s' ?r)" using mem by simp
  with r have k: "i \<in> recipients ?s' (ToRoom ?r)" by (rule subsetD)
  have e: "users ?s' = users s" "rooms ?s' = rooms s" by simp_all
  show ?thesis
    by (rule exI [of _ h], rule exI [of _ ?s'], rule exI [of _ ?m])
       (intro conjI h refl f [THEN conjunct1] f [THEN conjunct2, THEN conjunct1]
          f [THEN conjunct2, THEN conjunct2, THEN conjunct1]
          f [THEN conjunct2, THEN conjunct2, THEN conjunct2] st hs e r k)
qed

theorem send_message_valid_witness:
  "reachable two_members \<and> sockets two_members (ascii ''a1'') = Some alice
   \<and> trim (ascii ''hi'') \<noteq> [] \<and> length (trim (ascii ''hi'')) \<le> 1000
   \<and> (\<exists>s'. step two_members (SendMessage (ascii ''a1'') (Data (JStr (ascii ''hi''))) 5 6)
              = Some (s', [(ToRoom (ascii ''general''), NewMessage (messageData alice (ascii ''hi'') 5 6))])
          \<and> messageHistory s' (ascii ''general'') = Some [messageData alice (ascii ''hi'') 5 6]
          \<and> ascii ''a1'' \<in> recipients s' (ToRoom (ascii ''general''))
          \<and> ascii ''b2'' \<in> recipients s' (ToRoom (ascii ''general'')))"
proof -
  have 1: "sockets two_members (ascii ''a1'') = Some alice"
    by (simp add: two_members_fields ids_differ)
  have 2: "trim (ascii ''hi'') \<noteq> []" unfolding trim_hi by (simp add: ascii_def)
  have 3: "length (trim (ascii ''hi'')) \<le> 1000" unfolding trim_hi by (simp add: ascii_def)
  from send_message_valid [OF reachable_two_members 1 2 3, of 5 6]
  obtain h s' where "messageHistory two_members (sock_room alice) = Some h"
    and "step two_members (SendMessage (ascii ''a1'') (Data (JStr (ascii ''hi''))) 5 6)
          = Some (s', [(ToRoom (sock_room alice), NewMessage (messageData alice (trim (ascii ''hi'')) 5 6))])"
    and "messageHistory s' = (messageHistory two_members)
           (sock_room alice \<mapsto>
             (if length h < 100 then h @ [messageData alice (trim (ascii ''hi'')) 5 6]
              else tl h @ [messageData alice (trim (ascii ''hi'')) 5 6]))"
    and "rooms s' = rooms two_members"
    and "set (members s' (sock_room alice)) \<subseteq> recipients s' (ToRoom (sock_room alice))"
    by blast
  then have "step two_members (SendMessage (ascii ''a1'') (Data (JStr (ascii ''hi''))) 5 6)
              = Some (s', [(ToRoom (ascii ''general''), NewMessage (messageData alice (ascii ''hi'') 5 6))])
          \<and> messageHistory s' (ascii ''general'') = Some [messageData alice (ascii ''hi'') 5 6]
          \<and> ascii ''a1'' \<in> recipients s' (ToRoom (ascii ''general''))
          \<and> ascii ''b2'' \<in> recipients s' (ToRoom (ascii ''general''))"
    by (auto simp: trim_hi two_members_fields alice_def members_def simp del: recipients.simps step.simps)
  with reachable_two_members 1 2 3 show ?thesis by blast
qed


section \<open>Leaving and the user list\<close>

lemma fold_push_user_cong:
  "\<forall>i\<in>set ms. users s i = users s' i \<Longrightarrow>
   fold (push_user s) ms acc = fold (push_user s') ms acc"
  by (induction ms arbitrary: acc) (simp_all add: push_user_def)

lemma fold_push_user_entries:
  "\<forall>i\<in>set ms. users s i \<noteq> None \<Longrightarrow>
   \<exists>ul. fold (push_user s) ms acc = acc @ ul \<and> list_all2 (entry_of s) ms ul"
proof (induction ms arbitrary: acc)
  case Nil
  then show ?case by simp
next
  case (Cons i ms)
  then obtain u where u: "users s i = Some u" by auto
  from Cons.prems have "\<forall>i\<in>set ms. users s i \<noteq> None" by simp
  from Cons.IH [OF this, of "acc @ [(u_username u, joinedAt u)]"]
  obtain ul where f: "fold (push_user s) ms (acc @ [(u_username u, joinedAt u)])
                     = (acc @ [(u_username u, joinedAt u)]) @ ul"
    and a: "list_all2 (entry_of s) ms ul" by blast
  have pu: "push_user s i acc = acc @ [(u_username u, joinedAt u)]"
    by (simp add: push_user_def u)
  have e: "entry_of s i (u_username u, joinedAt u)" by (simp add: entry_of_def u)
  show ?case
    by (intro exI [of _ "(u_username u, joinedAt u) # ul"]) (simp add: pu e f a)
qed

lemma user_list_entries:
  "\<forall>i\<in>set ms. users s i \<noteq> None \<Longrightarrow> list_all2 (entry_of s) ms (fold (push_user s) ms [])"
  using fold_push_user_entries [of ms s "[]"] by auto

lemma members_have_records:
  "members_match s \<Longrightarrow> \<forall>i\<in>set (members s r). users s i \<noteq> None"
  by (auto simp: members_match_def)

lemma length_set_delete:
  "distinct xs \<Longrightarrow> x \<in> set xs \<Longrightarrow> length (set_delete xs x) = length xs - 1"
  by (simp add: set_delete_def distinct_remove1_removeAll [symmetric] length_remove1)

lemma distinct_members: "rooms_distinct s \<Longrightarrow> distinct (members s r)"
  by (auto simp: rooms_distinct_def members_def split: option.splits)

lemma rooms_dom_members:
  "rooms_nonempty s \<Longrightarrow> r \<in> dom (rooms s) \<longleftrightarrow> members s r \<noteq> []"
  by (auto simp: rooms_nonempty_def members_def split: option.splits)

lemma on_disconnect_known:
  assumes u: "users s (sid sk) = Some u"
  shows "users (fst (on_disconnect sk t s)) = (users s)(sid sk := None)
     \<and> members (fst (on_disconnect sk t s)) (u_room u) = set_delete (members s (u_room u)) (sid sk)
     \<and> (\<forall>ms. rooms s (u_room u) = Some ms \<longrightarrow>
          (if set_delete ms (sid sk) = []
           then rooms (fst (on_disconnect sk t s)) (u_room u) = None
                \<and> messageHistory (fst (on_disconnect sk t s)) (u_room u) = None
           else rooms (fst (on_disconnect sk t s)) (u_room u) = Some (set_delete ms (sid sk))
                \<and> messageHistory (fst (on_disconnect sk t s)) (u_room u)
                    = messageHistory s (u_room u)))
     \<and> (\<forall>r. r \<noteq> u_room u \<longrightarrow>
          rooms (fst (on_disconnect sk t s)) r = rooms s r
          \<and> messageHistory (fst (on_disconnect sk t s)) r = messageHistory s r)
     \<and> snd (on_disconnect sk t s)
         = (ToRoomExcept (u_room u) (sid sk),
            UserLeft (u_username u) t (memberCount (fst (on_disconnect sk t s)) (u_room u)))
           # snd (broadcastUserList (u_room u) (fst (on_disconnect sk t s)))"
proof (intro conjI allI impI)
  let ?s' = "fst (on_disconnect sk t s)"
  show "users ?s' = (users s)(sid sk := None)" by simp
  show m: "members ?s' (u_room u) = set_delete (members s (u_room u)) (sid sk)"
    by (simp add: members_on_disconnect u)
  have "\<forall>i\<in>set (members ?s' (u_room u)). users s i = users ?s' i"
    by (simp add: m)
  then have "fold (push_user s) (members ?s' (u_room u)) []
             = fold (push_user ?s') (members ?s' (u_room u)) []"
    by (rule fold_push_user_cong)
  then show "snd (on_disconnect sk t s)
         = (ToRoomExcept (u_room u) (sid sk),
            UserLeft (u_username u) t (memberCount ?s' (u_room u)))
           # snd (broadcastUserList (u_room u) ?s')"
    by (simp add: on_disconnect_out [OF u] broadcastUserList_snd)
next
  fix ms assume "rooms s (u_room u) = Some ms"
  then show "if set_delete ms (sid sk) = []
           then rooms (fst (on_disconnect sk t s)) (u_room u) = None
                \<and> messageHistory (fst (on_disconnect sk t s)) (u_room u) = None
           else rooms (fst (on_disconnect sk t s)) (u_room u) = Some (set_delete ms (sid sk))
                \<and> messageHistory (fst (on_disconnect sk t s)) (u_room u)
                    = messageHistory s (u_room u)"
    by (simp add: on_disconnect_rooms [OF u] on_disconnect_history [OF u])
next
  fix r assume "r \<noteq> u_room u"
  then show "rooms (fst (on_disconnect sk t s)) r = rooms s r"
    by (simp add: on_disconnect_rooms [OF u] split: option.splits)
  from \<open>r \<noteq> u_room u\<close> show "messageHistory (fst (on_disconnect sk t s)) r = messageHistory s r"
    by (simp add: on_disconnect_history [OF u] split: option.splits)
qed

lemma step_Disconnect_reachable:
  assumes "reachable s" and l: "sockets s i = Some sk"
  shows "\<exists>s' ul.
           step s (Disconnect i t)
             = Some (s', [(ToRoomExcept (sock_room sk) i,
                           UserLeft (sock_username sk) t (memberCount s' (sock_room sk))),
                          (ToRoom (sock_room sk), UserList ul)])
         \<and> users s' = (users s)(i := None) \<and> sockets s' i = None
         \<and> set (members s' (sock_room sk)) = set (members s (sock_room sk)) - {i}
         \<and> memberCount s' (sock_room sk) = memberCount s (sock_room sk) - 1
         \<and> dom (messageHistory s') = dom (rooms s')
         \<and> (sock_room sk \<in> dom (rooms s') \<longleftrightarrow> memberCount s (sock_room sk) > 1)
         \<and> list_all2 (entry_of s') (members s' (sock_room sk)) ul
         \<and> members s' (sock_room sk) = removeAll i (members s (sock_room sk))
         \<and> set (members s' (sock_room sk)) \<subseteq> recipients s' (ToRoomExcept (sock_room sk) i)
         \<and> set (members s' (sock_room sk)) \<subseteq> recipients s' (ToRoom (sock_room sk))
         \<and> i \<notin> recipients s' (ToRoom (sock_room sk))"
proof -
  let ?r = "sock_room sk"
  let ?s0 = "sio_close i s"
  let ?s' = "fst (on_disconnect sk t ?s0)"
  let ?ul = "fold (push_user ?s') (members ?s' ?r) []"
  from assms(1) have c: "consistent s" by (rule reachable_consistent)
  then have p: "presence_match s" by (simp add: consistent_def)
  from presence_match_Some [OF p l] obtain u where i: "sid sk = i"
    and u: "users s i = Some u" "u_username u = sock_username sk" "u_room u = ?r"
    by blast
  have u0: "users ?s0 (sid sk) = Some u" by (simp add: i u)
  note k = on_disconnect_known [OF u0, of t, unfolded u i]
  from consistent_disconnect [OF c l, of t] have c': "consistent ?s'" .
  have out: "snd (on_disconnect sk t ?s0)
             = [(ToRoomExcept ?r i, UserLeft (sock_username sk) t (memberCount ?s' ?r)),
                (ToRoom ?r, UserList ?ul)]"
    using k by (simp add: broadcastUserList_snd)
  have 1: "step s (Disconnect i t)
             = Some (?s', [(ToRoomExcept ?r i, UserLeft (sock_username sk) t (memberCount ?s' ?r)),
                           (ToRoom ?r, UserList ?ul)])"
    using out by (simp add: l) (metis prod.collapse)
  have 2: "users ?s' = (users s)(i := None)" by (simp add: i)
  have 3: "sockets ?s' i = None" by simp
  have m: "members ?s' ?r = set_delete (members s ?r) i" using k by simp
  then have 4: "set (members ?s' ?r) = set (members s ?r) - {i}" by simp
  from c u have mem: "i \<in> set (members s ?r)" by (auto simp: consistent_def members_match_def)
  from c have "distinct (members s ?r)" by (simp add: consistent_def distinct_members)
  with mem have 5: "memberCount ?s' ?r = memberCount s ?r - 1"
    by (simp add: memberCount_members m length_set_delete)
  from c' have 6: "dom (messageHistory ?s') = dom (rooms ?s')"
    by (simp add: consistent_def history_matches_def)
  from c' have "?r \<in> dom (rooms ?s') \<longleftrightarrow> members ?s' ?r \<noteq> []"
    by (simp add: consistent_def rooms_dom_members)
  also have "\<dots> \<longleftrightarrow> memberCount ?s' ?r > 0" by (simp add: memberCount_members)
  finally have 7: "?r \<in> dom (rooms ?s') \<longleftrightarrow> memberCount s ?r > 1" by (simp add: 5)
  from c' have "members_match ?s'" by (simp only: consistent_def)
  then have "\<forall>j\<in>set (members ?s' ?r). users ?s' j \<noteq> None"
    by (rule members_have_records)
  then have 8: "list_all2 (entry_of ?s') (members ?s' ?r) ?ul" by (rule user_list_entries)
  from c' have "joined_match ?s'" by (simp only: consistent_def)
  then have j: "joined ?s' ?r = set (members ?s' ?r) \<union> {j. j = ?r \<and> sockets ?s' j \<noteq> None}"
    by (simp only: joined_match_def)
  have ni: "i \<notin> set (members ?s' ?r)" by (simp only: 4) simp
  have 12: "members ?s' ?r = removeAll i (members s ?r)"
    by (simp only: m set_delete_def)
  have 10: "set (members ?s' ?r) \<subseteq> recipients ?s' (ToRoom ?r)"
    using c' by (rule members_receive)
  have 11: "i \<notin> recipients ?s' (ToRoom ?r)"
    using ni 3 by (simp only: recipients.simps j) auto
  have 9: "set (members ?s' ?r) \<subseteq> recipients ?s' (ToRoomExcept ?r i)"
    using 10 ni by (simp only: recipients.simps) blast
  show ?thesis
    by (rule exI [of _ ?s'], rule exI [of _ ?ul]) (intro conjI 1 2 3 4 5 6 7 8 12 9 10 11)
qed

text \<open>
  C6. The \<open>disconnect\<close> handler. For a socket without a presence record it changes
  nothing and emits nothing. With a record \<open>u\<close> it removes the socket from the member
  set of \<open>u\<close>'s room, deletes the room together with its history when the set becomes
  empty and otherwise leaves the history alone, touches no other room, deletes the record,
  and emits \<open>user_left\<close> with the member count after the removal to the room without the
  socket, followed by the user list of the updated state. For a connected socket of a
  reachable state the record exists, the member set is the old one without the socket, in
  the old order, the count drops by one, room and history stay together, the user list has
  one entry per remaining member in order, both events reach every remaining member, and
  the socket that left receives neither. Running the handler a second time for the same
  socket changes nothing and emits nothing.
\<close>

theorem disconnect_teardown:
  "(users s (sid sk) = None \<longrightarrow> on_disconnect sk t s = (s, []))
   \<and> (users s (sid sk) = Some u \<longrightarrow>
        users (fst (on_disconnect sk t s)) = (users s)(sid sk := None)
      \<and> members (fst (on_disconnect sk t s)) (u_room u)
          = set_delete (members s (u_room u)) (sid sk)
      \<and> (\<forall>ms. rooms s (u_room u) = Some ms \<longrightarrow>
           (if set_delete ms (sid sk) = []
            then rooms (fst (on_disconnect sk t s)) (u_room u) = None
                 \<and> messageHistory (fst (on_disconnect sk t s)) (u_room u) = None
            else rooms (fst (on_disconnect sk t s)) (u_room u) = Some (set_delete ms (sid sk))
                 \<and> messageHistory (fst (on_disconnect sk t s)) (u_room u)
                     = messageHistory s (u_room u)))
      \<and> (\<forall>r. r \<noteq> u_room u \<longrightarrow>
           rooms (fst (on_disconnect sk t s)) r = rooms s r
           \<and> messageHistory (fst (on_disconnect sk t s)) r = messageHistory s r)
      \<and> snd (on_disconnect sk t s)
          = (ToRoomExcept (u_room u) (sid sk),
             UserLeft (u_username u) t (memberCount (fst (on_disconnect sk t s)) (u_room u)))
            # snd (broadcastUserList (u_room u) (fst (on_disconnect sk t s))))
   \<and> (reachable s \<and> sockets s i = Some sk \<longrightarrow>
        (\<exists>s' ul.
           step s (Disconnect i t)
             = Some (s', [(ToRoomExcept (sock_room sk) i,
                           UserLeft (sock_username sk) t (memberCount s' (sock_room sk))),
                          (ToRoom (sock_room sk), UserList ul)])
         \<and> users s' = (users s)(i := None) \<and> sockets s' i = None
         \<and> set (members s' (sock_room sk)) = set (members s (sock_room sk)) - {i}
         \<and> memberCount s' (sock_room sk) = memberCount s (sock_room sk) - 1
         \<and> dom (messageHistory s') = dom (rooms s')
         \<and> (sock_room sk \<in> dom (rooms s') \<longleftrightarrow> memberCount s (sock_room sk) > 1)
         \<and> list_all2 (entry_of s') (members s' (sock_room sk)) ul
         \<and> members s' (sock_room sk) = removeAll i (members s (sock_room sk))
         \<and> set (members s' (sock_room sk)) \<subseteq> recipients s' (ToRoomExcept (sock_room sk) i)
         \<and> set (members s' (sock_room sk)) \<subseteq> recipients s' (ToRoom (sock_room sk))
         \<and> i \<notin> recipients s' (ToRoom (sock_room sk))))
   \<and> on_disconnect sk t' (fst (on_disconnect sk t s)) = (fst (on_disconnect sk t s), [])"
proof (intro conjI)
  show "users s (sid sk) = None \<longrightarrow> on_disconnect sk t s = (s, [])"
    by (simp add: on_disconnect_unknown)
  show "on_disconnect sk t' (fst (on_disconnect sk t s)) = (fst (on_disconnect sk t s), [])"
    by (rule on_disconnect_unknown) simp
  show "users s (sid sk) = Some u \<longrightarrow>
        users (fst (on_disconnect sk t s)) = (users s)(sid sk := None)
      \<and> members (fst (on_disconnect sk t s)) (u_room u)
          = set_delete (members s (u_room u)) (sid sk)
      \<and> (\<forall>ms. rooms s (u_room u) = Some ms \<longrightarrow>
           (if set_delete ms (sid sk) = []
            then rooms (fst (on_disconnect sk t s)) (u_room u) = None
                 \<and> messageHistory (fst (on_disconnect sk t s)) (u_room u) = None
            else rooms (fst (on_disconnect sk t s)) (u_room u) = Some (set_delete ms (sid sk))
                 \<and> messageHistory (fst (on_disconnect sk t s)) (u_room u)
                     = messageHistory s (u_room u)))
      \<and> (\<forall>r. r \<noteq> u_room u \<longrightarrow>
           rooms (fst (on_disconnect sk t s)) r = rooms s r
           \<and> messageHistory (fst (on_disconnect sk t s)) r = messageHistory s r)
      \<and> snd (on_disconnect sk t s)
          = (ToRoomExcept (u_room u) (sid sk),
             UserLeft (u_username u) t (memberCount (fst (on_disconnect sk t s)) (u_room u)))
            # snd (broadcastUserList (u_room u) (fst (on_disconnect sk t s)))"
    by (rule impI) (rule on_disconnect_known)
  show "reachable s \<and> sockets s i = Some sk \<longrightarrow>
        (\<exists>s' ul.
           step s (Disconnect i t)
             = Some (s', [(ToRoomExcept (sock_room sk) i,
                           UserLeft (sock_username sk) t (memberCount s' (sock_room sk))),
                          (ToRoom (sock_room sk), UserList ul)])
         \<and> users s' = (users s)(i := None) \<and> sockets s' i = None
         \<and> set (members s' (sock_room sk)) = set (members s (sock_room sk)) - {i}
         \<and> memberCount s' (sock_room sk) = memberCount s (sock_room sk) - 1
         \<and> dom (messageHistory s') = dom (rooms s')
         \<and> (sock_room sk \<in> dom (rooms s') \<longleftrightarrow> memberCount s (sock_room sk) > 1)
         \<and> list_all2 (entry_of s') (members s' (sock_room sk)) ul
         \<and> members s' (sock_room sk) = removeAll i (members s (sock_room sk))
         \<and> set (members s' (sock_room sk)) \<subseteq> recipients s' (ToRoomExcept (sock_room sk) i)
         \<and> set (members s' (sock_room sk)) \<subseteq> recipients s' (ToRoom (sock_room sk))
         \<and> i \<notin> recipients s' (ToRoom (sock_room sk)))"
    by (rule impI, elim conjE) (rule step_Disconnect_reachable)
qed

theorem disconnect_teardown_witness:
  "users init_state (sid alice) = None
   \<and> on_disconnect alice 9 init_state = (init_state, [])
   \<and> users two_members (sid bob)
       = Some \<lparr>u_username = ascii ''Bob'', u_room = ascii ''general'', joinedAt = 3\<rparr>
   \<and> members (fst (on_disconnect bob 9 two_members)) (ascii ''general'') = [ascii ''a1'']
   \<and> reachable two_members \<and> sockets two_members (ascii ''b2'') = Some bob
   \<and> (\<exists>s' ul. step two_members (Disconnect (ascii ''b2'') 9)
                 = Some (s', [(ToRoomExcept (ascii ''general'') (ascii ''b2''),
                               UserLeft (ascii ''Bob'') 9 1),
                              (ToRoom (ascii ''general''), UserList ul)])
        \<and> members s' (ascii ''general'') = [ascii ''a1'']
        \<and> ascii ''a1'' \<in> recipients s' (ToRoomExcept (ascii ''general'') (ascii ''b2''))
        \<and> ascii ''b2'' \<notin> recipients s' (ToRoom (ascii ''general'')))"
proof -
  let ?u = "\<lparr>u_username = ascii ''Bob'', u_room = ascii ''general'', joinedAt = 3\<rparr>"
  have 1: "users init_state (sid alice) = None" by (simp add: init_state_def)
  have 2: "users two_members (sid bob) = Some ?u"
    by (simp add: two_members_fields bob_def)
  have 3: "sockets two_members (ascii ''b2'') = Some bob" by (simp add: two_members_fields)
  note T = disconnect_teardown [of init_state alice 9]
  from T [THEN conjunct1] 1
  have a: "on_disconnect alice 9 init_state = (init_state, [])" by (rule mp)
  note U = disconnect_teardown [of two_members bob 9 ?u "ascii ''b2''"]
  from U [THEN conjunct2, THEN conjunct1] 2
  have "users (fst (on_disconnect bob 9 two_members)) = (users two_members)(sid bob := None)
      \<and> members (fst (on_disconnect bob 9 two_members)) (u_room ?u)
          = set_delete (members two_members (u_room ?u)) (sid bob)
      \<and> (\<forall>ms. rooms two_members (u_room ?u) = Some ms \<longrightarrow>
           (if set_delete ms (sid bob) = []
            then rooms (fst (on_disconnect bob 9 two_members)) (u_room ?u) = None
                 \<and> messageHistory (fst (on_disconnect bob 9 two_members)) (u_room ?u) = None
            else rooms (fst (on_disconnect bob 9 two_members)) (u_room ?u)
                   = Some (set_delete ms (sid bob))
                 \<and> messageHistory (fst (on_disconnect bob 9 two_members)) (u_room ?u)
                     = messageHistory two_members (u_room ?u)))
      \<and> (\<forall>r. r \<noteq> u_room ?u \<longrightarrow>
           rooms (fst (on_disconnect bob 9 two_members)) r = rooms two_members r
           \<and> messageHistory (fst (on_disconnect bob 9 two_members)) r
               = messageHistory two_members r)
      \<and> snd (on_disconnect bob 9 two_members)
          = (ToRoomExcept (u_room ?u) (sid bob),
             UserLeft (u_username ?u) 9
               (memberCount (fst (on_disconnect bob 9 two_members)) (u_room ?u)))
            # snd (broadcastUserList (u_room ?u) (fst (on_disconnect bob 9 two_members)))"
    by (rule mp)
  then have "members (fst (on_disconnect bob 9 two_members)) (u_room ?u)
          = set_delete (members two_members (u_room ?u)) (sid bob)"
    by (elim conjE)
  then have b: "members (fst (on_disconnect bob 9 two_members)) (ascii ''general'') = [ascii ''a1'']"
    by (simp add: bob_def members_def two_members_fields set_delete_def ids_differ)
  from reachable_two_members 3
  have "reachable two_members \<and> sockets two_members (ascii ''b2'') = Some bob" ..
  with U [THEN conjunct2, THEN conjunct2, THEN conjunct1]
  have "\<exists>s' ul.
           step two_members (Disconnect (ascii ''b2'') 9)
             = Some (s', [(ToRoomExcept (sock_room bob) (ascii ''b2''),
                           UserLeft (sock_username bob) 9 (memberCount s' (sock_room bob))),
                          (ToRoom (sock_room bob), UserList ul)])
         \<and> users s' = (users two_members)(ascii ''b2'' := None) \<and> sockets s' (ascii ''b2'') = None
         \<and> set (members s' (sock_room bob)) = set (members two_members (sock_room bob)) - {ascii ''b2''}
         \<and> memberCount s' (sock_room bob) = memberCount two_members (sock_room bob) - 1
         \<and> dom (messageHistory s') = dom (rooms s')
         \<and> (sock_room bob \<in> dom (rooms s') \<longleftrightarrow> memberCount two_members (sock_room bob) > 1)
         \<and> list_all2 (entry_of s') (members s' (sock_room bob)) ul
         \<and> members s' (sock_room bob) = removeAll (ascii ''b2'') (members two_members (sock_room bob))
         \<and> set (members s' (sock_room bob)) \<subseteq> recipients s' (ToRoomExcept (sock_room bob) (ascii ''b2''))
         \<and> set (members s' (sock_room bob)) \<subseteq> recipients s' (ToRoom (sock_room bob))
         \<and> ascii ''b2'' \<notin> recipients s' (ToRoom (sock_room bob))"
    by (rule mp)
  then have c: "\<exists>s' ul. step two_members (Disconnect (ascii ''b2'') 9)
                 = Some (s', [(ToRoomExcept (ascii ''general'') (ascii ''b2''),
                               UserLeft (ascii ''Bob'') 9 1),
                              (ToRoom (ascii ''general''), UserList ul)])
        \<and> members s' (ascii ''general'') = [ascii ''a1'']
        \<and> ascii ''a1'' \<in> recipients s' (ToRoomExcept (ascii ''general'') (ascii ''b2''))
        \<and> ascii ''b2'' \<notin> recipients s' (ToRoom (ascii ''general''))"
  proof (elim exE conjE)
    fix s' ul
    assume st: "step two_members (Disconnect (ascii ''b2'') 9)
             = Some (s', [(ToRoomExcept (sock_room bob) (ascii ''b2''),
                           UserLeft (sock_username bob) 9 (memberCount s' (sock_room bob))),
                          (ToRoom (sock_room bob), UserList ul)])"
      and ms: "set (members s' (sock_room bob)) = set (members two_members (sock_room bob)) - {ascii ''b2''}"
      and mc: "memberCount s' (sock_room bob) = memberCount two_members (sock_room bob) - 1"
      and ml: "members s' (sock_room bob) = removeAll (ascii ''b2'') (members two_members (sock_room bob))"
      and re: "set (members s' (sock_room bob)) \<subseteq> recipients s' (ToRoomExcept (sock_room bob) (ascii ''b2''))"
      and nr: "ascii ''b2'' \<notin> recipients s' (ToRoom (sock_room bob))"
    have g: "sock_room bob = ascii ''general''" "sock_username bob = ascii ''Bob''"
      by (simp_all add: bob_def)
    have n: "memberCount two_members (ascii ''general'') = 2"
      by (simp add: memberCount_def two_members_fields)
    have m: "set (members two_members (ascii ''general'')) - {ascii ''b2''} = {ascii ''a1''}"
      using ids_differ by (auto simp: members_def two_members_fields)
    from st have st': "step two_members (Disconnect (ascii ''b2'') 9)
                 = Some (s', [(ToRoomExcept (ascii ''general'') (ascii ''b2''),
                               UserLeft (ascii ''Bob'') 9 1),
                              (ToRoom (ascii ''general''), UserList ul)])"
      unfolding g mc [unfolded g] n by simp
    from ml have ml': "members s' (ascii ''general'') = [ascii ''a1'']"
      unfolding g using ids_differ by (simp add: members_def two_members_fields)
    from re have "ascii ''a1'' \<in> recipients s' (ToRoomExcept (ascii ''general'') (ascii ''b2''))"
      unfolding g ml' by simp
    with st' ml' nr [unfolded g] show ?thesis by blast
  qed
  from 1 a 2 b reachable_two_members 3 c show ?thesis by (intro conjI)
qed

lemma user_list_consistent:
  assumes "consistent s"
  shows "list_all2 (entry_of s) (members s r) (fold (push_user s) (members s r) [])"
proof -
  from assms have "members_match s" by (simp only: consistent_def)
  then have "\<forall>i\<in>set (members s r). users s i \<noteq> None" by (rule members_have_records)
  then show ?thesis by (rule user_list_entries)
qed

lemma no_user_list_on_send_message:
  "(tgt, UserList ul) \<notin> set (snd (on_send_message sk d t1 t2 s))"
  by (simp add: on_send_message_def Let_def split: payload.splits option.splits)

lemma step_user_list:
  assumes "reachable s" and st: "step s e = Some (s', out)"
    and ul: "(ToRoom r, UserList ul) \<in> set out"
  shows "ul = fold (push_user s') (members s' r) []"
proof (cases e)
  case (Connect i u r0 t1 t2)
  from st [unfolded Connect step_Connect] ul
  obtain un rm where "on_connection \<lparr>sid = i, sock_username = un, sock_room = rm\<rparr> t1 t2
              (sio_connect \<lparr>sid = i, sock_username = un, sock_room = rm\<rparr> s)
            = (s', out)"
    by auto
  then have "s' = fst (on_connection \<lparr>sid = i, sock_username = un, sock_room = rm\<rparr> t1 t2
              (sio_connect \<lparr>sid = i, sock_username = un, sock_room = rm\<rparr> s))"
    and "out = snd (on_connection \<lparr>sid = i, sock_username = un, sock_room = rm\<rparr> t1 t2
              (sio_connect \<lparr>sid = i, sock_username = un, sock_room = rm\<rparr> s))"
    by simp_all
  with ul show ?thesis by (simp add: on_connection_out)
next
  case (SendMessage i d t1 t2)
  from st [unfolded SendMessage step_SendMessage]
  obtain sk where "on_send_message sk d t1 t2 s = (s', out)" by blast
  then have "out = snd (on_send_message sk d t1 t2 s)" by simp
  with ul no_user_list_on_send_message show ?thesis by blast
next
  case (Typing i)
  with st ul show ?thesis by (auto simp: on_typing_def split: option.splits)
next
  case (StopTyping i)
  with st ul show ?thesis by (auto simp: on_stop_typing_def split: option.splits)
next
  case (Disconnect i t)
  from st [unfolded Disconnect step_Disconnect]
  obtain sk where l: "sockets s i = Some sk"
    and o: "on_disconnect sk t
           (sio_close i s) = (s', out)"
    by blast
  let ?s0 = "sio_close i s"
  from assms(1) have "presence_match s" by (simp add: reachable_consistent [unfolded consistent_def])
  from presence_match_Some [OF this l] obtain u where "sid sk = i" "users s i = Some u" by blast
  then have u0: "users ?s0 (sid sk) = Some u" by simp
  from o have e: "s' = fst (on_disconnect sk t ?s0)" "out = snd (on_disconnect sk t ?s0)"
    by simp_all
  from on_disconnect_known [OF u0, of t]
  have "snd (on_disconnect sk t ?s0)
          = (ToRoomExcept (u_room u) (sid sk),
             UserLeft (u_username u) t (memberCount (fst (on_disconnect sk t ?s0)) (u_room u)))
            # snd (broadcastUserList (u_room u) (fst (on_disconnect sk t ?s0)))"
    by (elim conjE)
  with ul e show ?thesis by (simp add: broadcastUserList_snd)
qed

lemma removeAll_filter: "removeAll x xs = filter (\<lambda>j. j \<noteq> x) xs"
  by (induction xs) auto

lemma step_members_Connect:
  assumes "reachable s" and st: "step s (Connect i u r1 t1 t2) = Some (s', out)"
    and a: "admit u r1 = Inr (un, r)"
  shows "members s' r = members s r @ [i]
       \<and> (\<forall>r'. r' \<noteq> r \<longrightarrow> members s' r' = members s r')
       \<and> (\<exists>ul. (ToRoom r, UserList ul) \<in> set out)"
proof -
  let ?sk = "\<lparr>sid = i, sock_username = un, sock_room = r\<rparr>"
  from st a have n: "sockets s i = None"
    and o: "on_connection ?sk t1 t2 (sio_connect ?sk s) = (s', out)"
    unfolding step_Connect by auto
  from o have e: "s' = fst (on_connection ?sk t1 t2 (sio_connect ?sk s))"
    "out = snd (on_connection ?sk t1 t2 (sio_connect ?sk s))" by simp_all
  from assms(1) have c: "consistent s" by (rule reachable_consistent)
  then have "presence_match s" by (simp only: consistent_def)
  from presence_match_None [OF this n] have "users s i = None" .
  with c have "i \<notin> set (members s r)" by (auto simp: consistent_def members_match_def)
  then have 1: "members s' r = members s r @ [i]"
    by (simp add: e members_on_connection set_add_def)
  have 2: "\<forall>r'. r' \<noteq> r \<longrightarrow> members s' r' = members s r'"
    by (simp add: e members_on_connection)
  have 3: "\<exists>ul. (ToRoom r, UserList ul) \<in> set out"
    by (simp add: e(2) on_connection_out)
  from 1 2 3 show ?thesis by (intro conjI)
qed

lemma step_members_Disconnect:
  assumes "reachable s" and st: "step s (Disconnect i t) = Some (s', out)"
    and l: "sockets s i = Some sk"
  shows "members s' (sock_room sk) = filter (\<lambda>j. j \<noteq> i) (members s (sock_room sk))
       \<and> (\<forall>r'. r' \<noteq> sock_room sk \<longrightarrow> members s' r' = members s r')
       \<and> (\<exists>ul. (ToRoom (sock_room sk), UserList ul) \<in> set out)"
proof -
  from st l have o: "on_disconnect sk t (sio_close i s) = (s', out)"
    unfolding step_Disconnect by auto
  then have e: "s' = fst (on_disconnect sk t (sio_close i s))" by simp
  from assms(1) have "presence_match s" by (simp add: reachable_consistent [unfolded consistent_def])
  from presence_match_Some [OF this l] obtain u where i: "sid sk = i"
    and u: "users s i = Some u" "u_room u = sock_room sk" by blast
  have 1: "members s' (sock_room sk) = filter (\<lambda>j. j \<noteq> i) (members s (sock_room sk))"
    by (simp add: e members_on_disconnect i u set_delete_def removeAll_filter)
  have 2: "\<forall>r'. r' \<noteq> sock_room sk \<longrightarrow> members s' r' = members s r'"
    by (simp add: e members_on_disconnect i u)
  from step_Disconnect_reachable [OF assms(1) l, of t] st
  have 3: "\<exists>ul. (ToRoom (sock_room sk), UserList ul) \<in> set out"
    by (elim exE conjE) (auto simp del: step.simps)
  from 1 2 3 show ?thesis by (intro conjI)
qed

lemma step_members_other:
  assumes st: "step s e = Some (s', out)"
    and nj: "\<forall>r. \<not> joins r e" and nd: "\<forall>i t. e \<noteq> Disconnect i t"
  shows "members s' r = members s r"
proof (cases e)
  case (Connect i u r1 t1 t2)
  from nj have "\<forall>un rm. admit u r1 \<noteq> Inr (un, rm)" unfolding Connect joins_Connect by blast
  with st have "s' = s" unfolding Connect step_Connect by auto
  then show ?thesis by simp
next
  case (SendMessage i d t1 t2)
  from st [unfolded SendMessage step_SendMessage]
  obtain sk where "on_send_message sk d t1 t2 s = (s', out)" by blast
  then have "s' = fst (on_send_message sk d t1 t2 s)" by simp
  then show ?thesis by simp
next
  case (Typing i)
  with st show ?thesis by (auto simp: on_typing_def split: option.splits)
next
  case (StopTyping i)
  with st show ?thesis by (auto simp: on_stop_typing_def split: option.splits)
next
  case (Disconnect i t)
  with nd show ?thesis by blast
qed

text \<open>
  C7. Whenever a step from a reachable state emits \<open>user_list\<close> to a room, the list
  has, in the order of the member set, exactly one entry per member of the room in the
  state after the step, each the username and join time of that member's presence record;
  the member set has no repetition and is the set of sockets connected to the room, and
  every member receives the list. The order of a member set is the order of joining: an
  admitted connection is appended at the end of the member set of its room, a disconnect
  takes the socket out of the member set of its room and keeps the order of the others,
  and nothing else changes any member set. Every admitted connection and every disconnect
  emits the list for its room. \<open>broadcastUserList\<close> leaves the state as it is, and for a
  room that is not registered it sends the empty list.
\<close>

theorem user_list_current:
  assumes "reachable s" and "step s e = Some (s', out)"
  shows "(\<forall>r ul. (ToRoom r, UserList ul) \<in> set out \<longrightarrow>
            list_all2 (entry_of s') (members s' r) ul
            \<and> distinct (members s' r)
            \<and> set (members s' r) = {i. \<exists>sk. sockets s' i = Some sk \<and> sock_room sk = r}
            \<and> set (members s' r) \<subseteq> recipients s' (ToRoom r))
       \<and> (\<forall>i u r1 t1 t2 r. e = Connect i u r1 t1 t2 \<and> joins r e \<longrightarrow>
            members s' r = members s r @ [i]
            \<and> (\<forall>r'. r' \<noteq> r \<longrightarrow> members s' r' = members s r')
            \<and> (\<exists>ul. (ToRoom r, UserList ul) \<in> set out))
       \<and> (\<forall>i t sk. e = Disconnect i t \<and> sockets s i = Some sk \<longrightarrow>
            members s' (sock_room sk) = filter (\<lambda>j. j \<noteq> i) (members s (sock_room sk))
            \<and> (\<forall>r'. r' \<noteq> sock_room sk \<longrightarrow> members s' r' = members s r')
            \<and> (\<exists>ul. (ToRoom (sock_room sk), UserList ul) \<in> set out))
       \<and> ((\<forall>r. \<not> joins r e) \<and> (\<forall>i t. e \<noteq> Disconnect i t) \<longrightarrow>
            (\<forall>r. members s' r = members s r))
       \<and> fst (broadcastUserList r0 s) = s
       \<and> (rooms s r0 = None \<longrightarrow> snd (broadcastUserList r0 s) = [(ToRoom r0, UserList [])])"
proof (intro conjI)
  from assms have c': "consistent s'" using reachable_consistent consistent_step by blast
  show "\<forall>r ul. (ToRoom r, UserList ul) \<in> set out \<longrightarrow>
            list_all2 (entry_of s') (members s' r) ul
            \<and> distinct (members s' r)
            \<and> set (members s' r) = {i. \<exists>sk. sockets s' i = Some sk \<and> sock_room sk = r}
            \<and> set (members s' r) \<subseteq> recipients s' (ToRoom r)"
  proof (intro allI impI conjI)
    fix r ul assume m: "(ToRoom r, UserList ul) \<in> set out"
    from step_user_list [OF assms m] user_list_consistent [OF c', of r]
    show "list_all2 (entry_of s') (members s' r) ul" by simp
    from c' show "distinct (members s' r)" by (simp add: consistent_def distinct_members)
    from c' show "set (members s' r) = {i. \<exists>sk. sockets s' i = Some sk \<and> sock_room sk = r}"
      by (rule members_are_sockets)
    from c' show "set (members s' r) \<subseteq> recipients s' (ToRoom r)" by (rule members_receive)
  qed
  show "\<forall>i u r1 t1 t2 r. e = Connect i u r1 t1 t2 \<and> joins r e \<longrightarrow>
            members s' r = members s r @ [i]
            \<and> (\<forall>r'. r' \<noteq> r \<longrightarrow> members s' r' = members s r')
            \<and> (\<exists>ul. (ToRoom r, UserList ul) \<in> set out)"
  proof (intro allI impI, elim conjE)
    fix i u r1 t1 t2 r assume e: "e = Connect i u r1 t1 t2" and j: "joins r e"
    from j obtain un where a: "admit u r1 = Inr (un, r)" unfolding e joins_Connect by blast
    from assms(2) have "step s (Connect i u r1 t1 t2) = Some (s', out)" unfolding e .
    from step_members_Connect [OF assms(1) this a]
    show "members s' r = members s r @ [i]
            \<and> (\<forall>r'. r' \<noteq> r \<longrightarrow> members s' r' = members s r')
            \<and> (\<exists>ul. (ToRoom r, UserList ul) \<in> set out)" .
  qed
  show "\<forall>i t sk. e = Disconnect i t \<and> sockets s i = Some sk \<longrightarrow>
            members s' (sock_room sk) = filter (\<lambda>j. j \<noteq> i) (members s (sock_room sk))
            \<and> (\<forall>r'. r' \<noteq> sock_room sk \<longrightarrow> members s' r' = members s r')
            \<and> (\<exists>ul. (ToRoom (sock_room sk), UserList ul) \<in> set out)"
  proof (intro allI impI, elim conjE)
    fix i t sk assume e: "e = Disconnect i t" and l: "sockets s i = Some sk"
    from assms(2) have "step s (Disconnect i t) = Some (s', out)" unfolding e .
    from step_members_Disconnect [OF assms(1) this l]
    show "members s' (sock_room sk) = filter (\<lambda>j. j \<noteq> i) (members s (sock_room sk))
            \<and> (\<forall>r'. r' \<noteq> sock_room sk \<longrightarrow> members s' r' = members s r')
            \<and> (\<exists>ul. (ToRoom (sock_room sk), UserList ul) \<in> set out)" .
  qed
  show "(\<forall>r. \<not> joins r e) \<and> (\<forall>i t. e \<noteq> Disconnect i t) \<longrightarrow>
            (\<forall>r. members s' r = members s r)"
  proof (intro allI impI, elim conjE)
    fix r assume "\<forall>r. \<not> joins r e" and "\<forall>i t. e \<noteq> Disconnect i t"
    with assms(2) show "members s' r = members s r" by (rule step_members_other)
  qed
  show "fst (broadcastUserList r0 s) = s" by simp
  show "rooms s r0 = None \<longrightarrow> snd (broadcastUserList r0 s) = [(ToRoom r0, UserList [])]"
    by (simp add: broadcastUserList_snd members_def)
qed

theorem user_list_current_witness:
  "reachable one_member
   \<and> step one_member bob_connects
       = Some (two_members, snd (on_connection bob 3 4 (sio_connect bob one_member)))
   \<and> joins (ascii ''general'') bob_connects
   \<and> (ToRoom (ascii ''general''), UserList [(ascii ''Alice'', 1), (ascii ''Bob'', 3)])
       \<in> set (snd (on_connection bob 3 4 (sio_connect bob one_member)))
   \<and> members one_member (ascii ''general'') = [ascii ''a1'']
   \<and> members two_members (ascii ''general'') = [ascii ''a1'', ascii ''b2'']
   \<and> list_all2 (entry_of two_members) (members two_members (ascii ''general''))
        [(ascii ''Alice'', 1), (ascii ''Bob'', 3)]
   \<and> ascii ''a1'' \<in> recipients two_members (ToRoom (ascii ''general''))
   \<and> ascii ''b2'' \<in> recipients two_members (ToRoom (ascii ''general''))
   \<and> rooms one_member (ascii ''lobby'') = None
   \<and> snd (broadcastUserList (ascii ''lobby'') one_member) = [(ToRoom (ascii ''lobby''), UserList [])]"
proof -
  let ?out = "snd (on_connection bob 3 4 (sio_connect bob one_member))"
  have st: "step one_member bob_connects = Some (two_members, ?out)"
    by (simp add: step_bob two_members_def)
  have g: "sock_room bob = ascii ''general''" by (simp add: bob_def)
  have jn: "joins (ascii ''general'') bob_connects"
    by (simp add: bob_connects_def admit_bob)
  have m1: "members one_member (ascii ''general'') = [ascii ''a1'']"
    by (simp add: members_def one_member_fields)
  note T = user_list_current [OF reachable_one_member st, of "ascii ''lobby''"]
  from T [THEN conjunct2, THEN conjunct1, THEN spec, THEN spec, THEN spec, THEN spec, THEN spec,
          THEN spec, THEN mp, OF conjI [OF bob_connects_def jn], THEN conjunct1]
  have ms: "members two_members (ascii ''general'') = [ascii ''a1'', ascii ''b2'']"
    by (simp only: m1 append.simps)
  have "?out ! 2 = (ToRoom (ascii ''general''),
                    UserList (fold (push_user two_members) (members two_members (ascii ''general'')) []))"
    by (simp add: on_connection_out g two_members_def)
  also have "fold (push_user two_members) (members two_members (ascii ''general'')) []
             = [(ascii ''Alice'', 1), (ascii ''Bob'', 3)]"
    by (simp add: ms push_user_def two_members_fields ids_differ)
  finally have "?out ! 2 = (ToRoom (ascii ''general''), UserList [(ascii ''Alice'', 1), (ascii ''Bob'', 3)])" .
  moreover have "length ?out = 3" by (simp add: on_connection_out)
  ultimately have m: "(ToRoom (ascii ''general''), UserList [(ascii ''Alice'', 1), (ascii ''Bob'', 3)])
       \<in> set ?out"
    by (metis nth_mem numeral_less_iff semiring_norm(76) semiring_norm(79) numeral_2_eq_2 numeral_3_eq_3 lessI)
  have n: "rooms one_member (ascii ''lobby'') = None"
    by (simp add: one_member_fields) (simp add: ascii_def)
  from T [THEN conjunct1, THEN spec, THEN spec, THEN mp, OF m]
  have a: "list_all2 (entry_of two_members) (members two_members (ascii ''general''))
             [(ascii ''Alice'', 1), (ascii ''Bob'', 3)]"
    and b: "set (members two_members (ascii ''general''))
              \<subseteq> recipients two_members (ToRoom (ascii ''general''))"
    by blast+
  from T [THEN conjunct2, THEN conjunct2, THEN conjunct2, THEN conjunct2, THEN conjunct2] n
  have c: "snd (broadcastUserList (ascii ''lobby'') one_member) = [(ToRoom (ascii ''lobby''), UserList [])]"
    by (rule mp)
  from b have b1: "ascii ''a1'' \<in> recipients two_members (ToRoom (ascii ''general''))"
    and b2: "ascii ''b2'' \<in> recipients two_members (ToRoom (ascii ''general''))"
    unfolding ms by simp_all
  from reachable_one_member st jn m m1 ms a b1 b2 n c show ?thesis by (intro conjI)
qed

subsection \<open>A room that was destroyed\<close>

lemma rooms_None_step:
  assumes n: "rooms s R = None" and st: "step s e = Some (s', out)" and j: "\<not> joins R e"
  shows "rooms s' R = None"
proof (cases e)
  case (Connect i u r t1 t2)
  from st [unfolded Connect step_Connect]
  consider "s' = s"
    | un rm where "admit u r = Inr (un, rm)"
        "on_connection \<lparr>sid = i, sock_username = un, sock_room = rm\<rparr> t1 t2
              (sio_connect \<lparr>sid = i, sock_username = un, sock_room = rm\<rparr> s)
            = (s', out)"
    by blast
  then show ?thesis
  proof cases
    case 1
    with n show ?thesis by simp
  next
    case 2
    from j 2(1) have "rm \<noteq> R" unfolding Connect joins_Connect by simp
    moreover from 2(2) have "s' = fst (on_connection \<lparr>sid = i, sock_username = un, sock_room = rm\<rparr> t1 t2
              (sio_connect \<lparr>sid = i, sock_username = un, sock_room = rm\<rparr> s))"
      by simp
    ultimately show ?thesis using n by (simp add: on_connection_rooms)
  qed
next
  case (SendMessage i d t1 t2)
  from st [unfolded SendMessage step_SendMessage]
  obtain sk where "on_send_message sk d t1 t2 s = (s', out)" by blast
  then have "s' = fst (on_send_message sk d t1 t2 s)" by simp
  with n show ?thesis by simp
next
  case (Typing i)
  with st n show ?thesis by (auto simp: on_typing_def split: option.splits)
next
  case (StopTyping i)
  with st n show ?thesis by (auto simp: on_stop_typing_def split: option.splits)
next
  case (Disconnect i t)
  from st [unfolded Disconnect step_Disconnect]
  obtain sk where o: "on_disconnect sk t
           (sio_close i s) = (s', out)"
    by blast
  let ?s0 = "sio_close i s"
  from o have e: "s' = fst (on_disconnect sk t ?s0)" by simp
  show ?thesis
  proof (cases "users ?s0 (sid sk)")
    case None
    with n show ?thesis by (simp add: e on_disconnect_unknown)
  next
    case (Some u)
    from n show ?thesis
      unfolding e on_disconnect_rooms [OF Some]
      by (auto split: option.splits)
  qed
qed

lemma rooms_None_run:
  "rooms s R = None \<Longrightarrow> run s es = Some (s', out) \<Longrightarrow> \<forall>e\<in>set es. \<not> joins R e \<Longrightarrow>
   rooms s' R = None"
proof (induction es arbitrary: s out)
  case Nil
  then show ?case by simp
next
  case (Cons e es)
  from Cons.prems(2) obtain s1 out1 out2 where 1: "step s e = Some (s1, out1)"
    and 2: "run s1 es = Some (s', out2)"
    by (auto split: option.splits prod.splits simp del: step.simps)
  from Cons.prems(3) have "\<not> joins R e" by simp
  from rooms_None_step [OF Cons.prems(1) 1 this] have "rooms s1 R = None" .
  from Cons.IH [OF this 2] Cons.prems(3) show ?case by simp
qed

text \<open>
  C8. When the only member of a room disconnects in a reachable state, the room and its
  history are gone, and they stay gone through any further events that admit nobody to
  that room. The next connection admitted to the room receives the empty
  \<open>message_history\<close> and starts the room with an empty history.
\<close>

theorem rejoin_empty_history:
  assumes "reachable s" and "sockets s i = Some sk" and "members s (sock_room sk) = [i]"
    and "run s (Disconnect i t # es) = Some (s1, out1)"
    and "\<forall>e\<in>set es. \<not> joins (sock_room sk) e"
    and "joins (sock_room sk) (Connect j u r t1 t2)"
    and "step s1 (Connect j u r t1 t2) = Some (s2, out2)"
  shows "rooms s1 (sock_room sk) = None \<and> messageHistory s1 (sock_room sk) = None
       \<and> hd out2 = (ToSocket j, MessageHistory [])
       \<and> messageHistory s2 (sock_room sk) = Some []"
proof -
  let ?R = "sock_room sk"
  from assms(4) obtain s0 out0 out' where d: "step s (Disconnect i t) = Some (s0, out0)"
    and rn: "run s0 es = Some (s1, out')"
    by (auto split: option.splits prod.splits simp del: step.simps)
  from step_Disconnect_reachable [OF assms(1,2), of t] d
  have "?R \<in> dom (rooms s0) \<longleftrightarrow> memberCount s ?R > 1"
    by (elim exE conjE) (simp del: step.simps)
  with assms(3) have "rooms s0 ?R = None" by (auto simp: memberCount_members)
  from rooms_None_run [OF this rn assms(5)] have 1: "rooms s1 ?R = None" .
  from assms(1) d have "reachable s0" by (rule reachable_step)
  then have "reachable s1" using rn by (rule run_reachable)
  then have "consistent s1" by (rule reachable_consistent)
  with 1 have 2: "messageHistory s1 ?R = None"
    by (auto simp: consistent_def history_matches_def)
  from assms(6) obtain un where a: "admit u r = Inr (un, ?R)" unfolding joins_Connect by blast
  let ?sk = "\<lparr>sid = j, sock_username = un, sock_room = ?R\<rparr>"
  let ?s1 = "sio_connect ?sk s1"
  from assms(7) a have "on_connection ?sk t1 t2 ?s1 = (s2, out2)"
    unfolding step_Connect by auto
  then have e: "s2 = fst (on_connection ?sk t1 t2 ?s1)" "out2 = snd (on_connection ?sk t1 t2 ?s1)"
    by simp_all
  have 4: "messageHistory s2 ?R = Some []" using 1 by (simp add: e on_connection_history)
  then have 3: "hd out2 = (ToSocket j, MessageHistory [])"
    unfolding e by (simp add: on_connection_out recent_def slice_last_def)
  from 1 2 3 4 show ?thesis by (intro conjI)
qed

lemma reachable_chatted: "reachable chatted"
proof -
  have "step one_member (SendMessage (ascii ''a1'') (Data (JStr (ascii ''hi''))) 5 6)
          = Some (chatted, snd (on_send_message alice (Data (JStr (ascii ''hi''))) 5 6 one_member))"
    by (simp add: one_member_fields chatted_def)
  with reachable_one_member show ?thesis by (rule reachable_step)
qed

lemma chatted_fields:
  "rooms chatted = [ascii ''general'' \<mapsto> [ascii ''a1'']]"
  "sockets chatted = [ascii ''a1'' \<mapsto> alice]"
  "messageHistory chatted (ascii ''general'') = Some [messageData alice (ascii ''hi'') 5 6]"
  by (simp_all add: chatted_def one_member_fields on_send_message_JStr trim_hi alice_def
        history_push_def)
     (simp_all add: ascii_def)

theorem rejoin_empty_history_witness:
  "reachable chatted
   \<and> messageHistory chatted (ascii ''general'') = Some [messageData alice (ascii ''hi'') 5 6]
   \<and> sockets chatted (ascii ''a1'') = Some alice
   \<and> members chatted (sock_room alice) = [ascii ''a1'']
   \<and> joins (sock_room alice) bob_connects
   \<and> (\<exists>s1 out1 s2 out2.
         run chatted [Disconnect (ascii ''a1'') 9] = Some (s1, out1)
       \<and> step s1 bob_connects = Some (s2, out2)
       \<and> messageHistory s1 (ascii ''general'') = None
       \<and> hd out2 = (ToSocket (ascii ''b2''), MessageHistory [])
       \<and> messageHistory s2 (ascii ''general'') = Some [])"
proof -
  let ?c0 = "sio_close (ascii ''a1'') chatted"
  let ?s1 = "fst (on_disconnect alice 9 ?c0)"
  let ?o1 = "snd (on_disconnect alice 9 ?c0)"
  let ?s1' = "sio_connect bob ?s1"
  let ?s2 = "fst (on_connection bob 3 4 ?s1')"
  let ?o2 = "snd (on_connection bob 3 4 ?s1')"
  have g: "sock_room alice = ascii ''general''" by (simp add: alice_def)
  have 1: "sockets chatted (ascii ''a1'') = Some alice" by (simp add: chatted_fields)
  have 2: "members chatted (sock_room alice) = [ascii ''a1'']"
    by (simp add: members_def chatted_fields g)
  have 3: "run chatted (Disconnect (ascii ''a1'') 9 # []) = Some (?s1, ?o1)"
    by (simp add: chatted_fields)
  have 4: "\<forall>e\<in>set []. \<not> joins (sock_room alice) e" by simp
  have 5: "joins (sock_room alice) (Connect (ascii ''b2'') (JStr (ascii '' Bob '')) (JStr (ascii ''general'')) 3 4)"
    by (simp add: admit_bob g)
  have 6: "step ?s1 (Connect (ascii ''b2'') (JStr (ascii '' Bob '')) (JStr (ascii ''general'')) 3 4)
             = Some (?s2, ?o2)"
    by (simp add: admit_bob chatted_fields ids_differ Let_def bob_def)
  from rejoin_empty_history [OF reachable_chatted 1 2 3 4 5 6]
  have "messageHistory ?s1 (ascii ''general'') = None
       \<and> hd ?o2 = (ToSocket (ascii ''b2''), MessageHistory [])
       \<and> messageHistory ?s2 (ascii ''general'') = Some []"
    unfolding g by blast
  with 3 6 have "\<exists>s1 out1 s2 out2.
         run chatted [Disconnect (ascii ''a1'') 9] = Some (s1, out1)
       \<and> step s1 bob_connects = Some (s2, out2)
       \<and> messageHistory s1 (ascii ''general'') = None
       \<and> hd out2 = (ToSocket (ascii ''b2''), MessageHistory [])
       \<and> messageHistory s2 (ascii ''general'') = Some []"
    unfolding bob_connects_def by blast
  with reachable_chatted chatted_fields(3) 1 2 5 show ?thesis
    unfolding bob_connects_def by (intro conjI)
qed

end
